theory Spec2Isabelle
  imports Main "HOL-Library.Multiset"
begin

section \<open>JavaScript values used by the server (src/src/index.ts)\<close>

text \<open>
  A parsed JSON document, as \<^verbatim>\<open>JSON.parse\<close> hands it to the program and as
  \<^verbatim>\<open>JSON.stringify\<close> takes it. The text form of a file is the runtime's business;
  the model works on the parsed value. A string is a list of characters, one \<open>char\<close>
  per UTF-16 code unit, so \<open>length\<close> is JavaScript's \<^verbatim>\<open>.length\<close> for the code
  units a \<open>char\<close> can hold. An object is the list of its properties in insertion
  order, each key once.

  A number is a double. The program asks two things of a number, and both are answered by
  the runtime: its text, \<^verbatim>\<open>String(n)\<close> (\<^verbatim>\<open>"7"\<close>, \<^verbatim>\<open>"0.5"\<close>,
  \<^verbatim>\<open>"1e+70"\<close>), and whether it is truthy (neither zero nor \<^verbatim>\<open>NaN\<close>).
  \<open>JNum text nonzero\<close> is a number with these two answers; every double is one of
  these values.
\<close>

datatype json =
  JNull
| JBool bool
| JNum string bool
| JStr string
| JArr "json list"
| JObj "(string \<times> json) list"

text \<open>\<^verbatim>\<open>typeof v\<close> and the truthiness test \<^verbatim>\<open>Boolean(v)\<close> / \<^verbatim>\<open>!v\<close>.\<close>

fun typeof :: "json \<Rightarrow> string" where
  "typeof JNull = ''object''"
| "typeof (JBool b) = ''boolean''"
| "typeof (JNum text nonzero) = ''number''"
| "typeof (JStr s) = ''string''"
| "typeof (JArr xs) = ''object''"
| "typeof (JObj kvs) = ''object''"

fun truthy :: "json \<Rightarrow> bool" where
  "truthy JNull = False"
| "truthy (JBool b) = b"
| "truthy (JNum text nonzero) = nonzero"
| "truthy (JStr s) = (s \<noteq> [])"
| "truthy (JArr xs) = True"
| "truthy (JObj kvs) = True"

text \<open>
  Property lookup \<^verbatim>\<open>v.k\<close>; \<open>None\<close> is \<^verbatim>\<open>undefined\<close>, which is also what
  \<^verbatim>\<open>"k" in v\<close> being false means for the keys the program asks for (none of them is
  a property of an array).
\<close>

fun get_prop :: "json \<Rightarrow> string \<Rightarrow> json option" where
  "get_prop (JObj kvs) k = map_of kvs k"
| "get_prop v k = None"

text \<open>\<^verbatim>\<open>String.prototype.trim\<close>: strips white space and line terminators at both ends.\<close>

definition js_whitespace :: "char \<Rightarrow> bool" where
  "js_whitespace c = ((of_char c :: nat) \<in> {9, 10, 11, 12, 13, 32, 160})"

definition trim :: "string \<Rightarrow> string" where
  "trim s = rev (dropWhile js_whitespace (rev (dropWhile js_whitespace s)))"

text \<open>
  The number of participants, as the responses carry it: a count is an integer far
  below \<open>10\<^sup>2\<^sup>1\<close>, and the text of such an integer is its decimal digits.
\<close>

function string_of_nat :: "nat \<Rightarrow> string" where
  "string_of_nat n =
     (if n < 10 then [char_of (48 + n)]
      else string_of_nat (n div 10) @ [char_of (48 + n mod 10)])"
  by pat_completeness auto
termination
  by (relation "measure id") auto

declare string_of_nat.simps [simp del]

definition number_of_count :: "nat \<Rightarrow> json" where
  "number_of_count n = JNum (string_of_nat n) (n \<noteq> 0)"

text \<open>The error a conversion throws.\<close>

datatype type_error = TypeError

text \<open>The results of a list of steps that may each throw: the first error, or all the
  values.\<close>

fun collect_results :: "('e + 'a) list \<Rightarrow> 'e + 'a list" where
  "collect_results [] = Inr []"
| "collect_results (Inl e # rs) = Inl e"
| "collect_results (Inr x # rs) =
     (case collect_results rs of Inl e \<Rightarrow> Inl e | Inr xs \<Rightarrow> Inr (x # xs))"

text \<open>
  \<^verbatim>\<open>String(v)\<close>: the text of a value. For an object, \<^verbatim>\<open>String\<close> calls its
  \<^verbatim>\<open>toString\<close>: the one of \<^verbatim>\<open>Object.prototype\<close> answers
  \<^verbatim>\<open>"[object Object]"\<close>, but a parsed object with a property \<^verbatim>\<open>toString\<close> of its
  own hides it behind a value that cannot be called, and the conversion throws a
  \<^verbatim>\<open>TypeError\<close>. An array joins the texts of its elements with commas, \<^verbatim>\<open>null\<close>
  giving the empty text, and throws when the conversion of an element does.
\<close>

fun js_join :: "string \<Rightarrow> string list \<Rightarrow> string" where
  "js_join sep [] = []"
| "js_join sep [x] = x"
| "js_join sep (x # y # ys) = x @ sep @ js_join sep (y # ys)"

fun js_String :: "json \<Rightarrow> type_error + string" where
  "js_String JNull = Inr ''null''"
| "js_String (JBool b) = Inr (if b then ''true'' else ''false'')"
| "js_String (JNum text nonzero) = Inr text"
| "js_String (JStr s) = Inr s"
| "js_String (JArr xs) =
     (case collect_results (map (\<lambda>x. if x = JNull then Inr [] else js_String x) xs) of
        Inl e \<Rightarrow> Inl e
      | Inr parts \<Rightarrow> Inr (js_join '','' parts))"
| "js_String (JObj kvs) =
     (if ''toString'' \<in> set (map fst kvs) then Inl TypeError else Inr ''[object Object]'')"

section \<open>Data model\<close>

text \<open>The types \<^verbatim>\<open>Participant\<close>, \<^verbatim>\<open>PersistedParticipant\<close> and \<^verbatim>\<open>PersistedState\<close>.
  An optional field that is \<^verbatim>\<open>undefined\<close> in memory, or \<^verbatim>\<open>null\<close> on disk, is \<open>None\<close>.\<close>

record participant =
  token :: string
  name :: string
  assignmentToken :: "string option"
  registeredAt :: string
  ipAddress :: "string option"

record persisted_participant =
  pp_token :: string
  pp_name :: string
  pp_assignmentToken :: "string option"
  pp_registeredAt :: string
  pp_ipAddress :: "string option"

record persisted_state =
  ps_participants :: "persisted_participant list"
  ps_assignmentsReady :: bool
  ps_lastShuffledAt :: "string option"
  ps_registrationOpen :: bool

text \<open>
  The module's variables: \<^verbatim>\<open>participants\<close> (a \<^verbatim>\<open>Map<string, Participant>\<close>),
  \<^verbatim>\<open>assignmentsReady\<close>, \<^verbatim>\<open>lastShuffledAt\<close>, \<^verbatim>\<open>registrationOpen\<close>.
  A JavaScript \<^verbatim>\<open>Map\<close> iterates in insertion order: it is the list of its entries.
\<close>

record registry =
  participants :: "(string \<times> participant) list"
  assignmentsReady :: bool
  lastShuffledAt :: "string option"
  registrationOpen :: bool

definition initial_registry :: registry where
  "initial_registry =
     \<lparr>participants = [], assignmentsReady = False, lastShuffledAt = None,
      registrationOpen = True\<rparr>"

text \<open>\<^verbatim>\<open>Map.prototype.has\<close>, \<^verbatim>\<open>get\<close> and \<^verbatim>\<open>set\<close>: setting an existing key replaces
  the value where the entry stands, setting a new key appends the entry.\<close>

definition map_has :: "(string \<times> 'v) list \<Rightarrow> string \<Rightarrow> bool" where
  "map_has m k = (k \<in> set (map fst m))"

definition map_get :: "(string \<times> 'v) list \<Rightarrow> string \<Rightarrow> 'v option" where
  "map_get m k = map_of m k"

fun map_set :: "(string \<times> 'v) list \<Rightarrow> string \<Rightarrow> 'v \<Rightarrow> (string \<times> 'v) list" where
  "map_set [] k v = [(k, v)]"
| "map_set ((k', v') # m) k v = (if k' = k then (k, v) # m else (k', v') # map_set m k v)"

text \<open>The representation invariant of the registry's map: a key occurs once, and every
  entry is stored under its own token (each \<^verbatim>\<open>participants.set\<close> of the program does so).\<close>

definition registry_ok :: "registry \<Rightarrow> bool" where
  "registry_ok st =
     (distinct (map fst (participants st)) \<and>
      list_all (\<lambda>(k, p). token p = k) (participants st))"

section \<open>Snapshots: captureState and restoreState\<close>

definition captureState :: "registry \<Rightarrow> persisted_state" where
  "captureState st =
     \<lparr>ps_participants =
        map (\<lambda>p. \<lparr>pp_token = token p, pp_name = name p,
                   pp_assignmentToken = assignmentToken p,
                   pp_registeredAt = registeredAt p,
                   pp_ipAddress = ipAddress p\<rparr>)
            (map snd (participants st)),
      ps_assignmentsReady = assignmentsReady st,
      ps_lastShuffledAt = lastShuffledAt st,
      ps_registrationOpen = registrationOpen st\<rparr>"

definition restore_entry ::
  "(string \<times> participant) list \<Rightarrow> persisted_participant \<Rightarrow> (string \<times> participant) list" where
  "restore_entry m entry =
     map_set m (pp_token entry)
       \<lparr>token = pp_token entry, name = pp_name entry,
        assignmentToken = pp_assignmentToken entry,
        registeredAt = pp_registeredAt entry,
        ipAddress = pp_ipAddress entry\<rparr>"

text \<open>\<^verbatim>\<open>restoreState\<close> replaces the whole registry; the flags of a
  \<^verbatim>\<open>PersistedState\<close> are already a boolean, a string or null, and a boolean.\<close>

definition restoreState :: "persisted_state \<Rightarrow> registry" where
  "restoreState state =
     \<lparr>participants = foldl restore_entry [] (ps_participants state),
      assignmentsReady = ps_assignmentsReady state,
      lastShuffledAt = ps_lastShuffledAt state,
      registrationOpen = ps_registrationOpen state\<rparr>"

section \<open>The persisted file\<close>

text \<open>
  The file system, as far as the program touches it: a path holds no file, a file that
  \<^verbatim>\<open>JSON.parse\<close> rejects, or a file with a parsed value. \<^verbatim>\<open>JSON.stringify\<close> of
  a snapshot followed by \<^verbatim>\<open>JSON.parse\<close> gives the value \<open>json_of_state\<close> builds,
  with the keys in the order \<^verbatim>\<open>captureState\<close> writes them.
\<close>

datatype stored_file = Garbage | Parsed json

type_synonym fs = "string \<Rightarrow> stored_file option"

definition PARTICIPANTS_FILE :: string where
  "PARTICIPANTS_FILE = ''participants.json''"

definition json_of_nullable :: "string option \<Rightarrow> json" where
  "json_of_nullable v = (case v of None \<Rightarrow> JNull | Some s \<Rightarrow> JStr s)"

definition json_of_participant :: "persisted_participant \<Rightarrow> json" where
  "json_of_participant p =
     JObj [(''token'', JStr (pp_token p)),
           (''name'', JStr (pp_name p)),
           (''assignmentToken'', json_of_nullable (pp_assignmentToken p)),
           (''registeredAt'', JStr (pp_registeredAt p)),
           (''ipAddress'', json_of_nullable (pp_ipAddress p))]"

definition json_of_state :: "persisted_state \<Rightarrow> json" where
  "json_of_state s =
     JObj [(''assignmentsReady'', JBool (ps_assignmentsReady s)),
           (''lastShuffledAt'', json_of_nullable (ps_lastShuffledAt s)),
           (''registrationOpen'', JBool (ps_registrationOpen s)),
           (''participants'', JArr (map json_of_participant (ps_participants s)))]"

subsection \<open>loadPersistedState\<close>

text \<open>The expression \<^verbatim>\<open>"k" in participant ? String(participant.k) : ""\<close>.\<close>

definition property_text :: "json \<Rightarrow> string \<Rightarrow> type_error + string" where
  "property_text participant k =
     (case get_prop participant k of Some v \<Rightarrow> js_String v | None \<Rightarrow> Inr [])"

text \<open>The callback of \<^verbatim>\<open>parsed.participants.map\<close>: \<open>Inr None\<close> is the \<^verbatim>\<open>null\<close>
  that the following \<^verbatim>\<open>filter\<close> removes, \<open>Inl\<close> an error thrown by a conversion (the
  token is converted first, then the name, then the two are tested). \<open>now\<close> is
  \<^verbatim>\<open>new Date().toISOString()\<close>, taken to be the same text for every record of one
  load.\<close>

definition sanitize_participant ::
  "string \<Rightarrow> json \<Rightarrow> type_error + persisted_participant option" where
  "sanitize_participant now participant =
     (if \<not> truthy participant \<or> typeof participant \<noteq> ''object'' then Inr None
      else
        case property_text participant ''token'' of
          Inl err \<Rightarrow> Inl err
        | Inr tok \<Rightarrow>
            (case property_text participant ''name'' of
               Inl err \<Rightarrow> Inl err
             | Inr nm \<Rightarrow>
                 if tok = [] \<or> nm = [] then Inr None
                 else
                   let registeredAtRaw = (case get_prop participant ''registeredAt'' of
                                            Some v \<Rightarrow> v | None \<Rightarrow> JNull);
                       assignmentTokenRaw = (case get_prop participant ''assignmentToken'' of
                                               Some v \<Rightarrow> v | None \<Rightarrow> JNull);
                       ipAddressRaw = (case get_prop participant ''ipAddress'' of
                                         Some v \<Rightarrow> v | None \<Rightarrow> JNull);
                       registeredAt = (case registeredAtRaw of
                                         JStr s \<Rightarrow> if s \<noteq> [] then s else now
                                       | _ \<Rightarrow> now);
                       assignmentToken = (case assignmentTokenRaw of
                                            JStr s \<Rightarrow> if s \<noteq> [] then Some s else None
                                          | _ \<Rightarrow> None);
                       ipAddress = (case ipAddressRaw of
                                      JStr s \<Rightarrow>
                                        if trim s \<noteq> [] then Some (take 128 (trim s)) else None
                                    | _ \<Rightarrow> None)
                   in Inr (Some \<lparr>pp_token = tok, pp_name = nm,
                                  pp_assignmentToken = assignmentToken,
                                  pp_registeredAt = registeredAt,
                                  pp_ipAddress = ipAddress\<rparr>)))"

text \<open>The object \<^verbatim>\<open>sanitized\<close>, for a \<^verbatim>\<open>parsed\<close> whose \<^verbatim>\<open>participants\<close> is the
  array \<open>records\<close>: \<^verbatim>\<open>map\<close> runs the callback on the records in order and stops at
  the first one that throws; \<^verbatim>\<open>filter\<close> then removes the \<^verbatim>\<open>null\<close>s.\<close>

definition sanitize :: "string \<Rightarrow> json \<Rightarrow> json list \<Rightarrow> type_error + persisted_state" where
  "sanitize now parsed records =
     (case collect_results (map (sanitize_participant now) records) of
        Inl err \<Rightarrow> Inl err
      | Inr items \<Rightarrow>
          Inr \<lparr>ps_participants = List.map_filter (\<lambda>item. item) items,
               ps_assignmentsReady = (case get_prop parsed ''assignmentsReady'' of
                                        Some v \<Rightarrow> truthy v | None \<Rightarrow> False),
               ps_lastShuffledAt = (case get_prop parsed ''lastShuffledAt'' of
                                      Some (JStr s) \<Rightarrow> if s \<noteq> [] then Some s else None
                                    | _ \<Rightarrow> None),
               ps_registrationOpen = (case get_prop parsed ''registrationOpen'' of
                                        Some (JBool b) \<Rightarrow> b
                                      | _ \<Rightarrow> True)\<rparr>)"

datatype load_error = SyntaxError | InvalidFormat | Conversion type_error

text \<open>A missing file (\<^verbatim>\<open>ENOENT\<close>) leaves the registry as it is; every other failure
  (a file that does not parse, the format check, a conversion that throws) is thrown to
  the caller, which ends the process.\<close>

definition loadPersistedState :: "fs \<Rightarrow> string \<Rightarrow> registry \<Rightarrow> load_error + registry" where
  "loadPersistedState disk now st =
     (case disk PARTICIPANTS_FILE of
        None \<Rightarrow> Inr st
      | Some Garbage \<Rightarrow> Inl SyntaxError
      | Some (Parsed parsed) \<Rightarrow>
          if \<not> truthy parsed \<or> typeof parsed \<noteq> ''object''
          then Inl InvalidFormat
          else (case get_prop parsed ''participants'' of
                  Some (JArr records) \<Rightarrow>
                    (case sanitize now parsed records of
                       Inl err \<Rightarrow> Inl (Conversion err)
                     | Inr sanitized \<Rightarrow> Inr (restoreState sanitized))
                | _ \<Rightarrow> Inl InvalidFormat))"

subsection \<open>persistState\<close>

text \<open>
  What the storage layer does with one write is the environment's choice: both steps
  succeed, \<^verbatim>\<open>writeFile\<close> of the temporary file fails, or \<^verbatim>\<open>rename\<close> fails. After a
  failure the temporary file is removed (\<^verbatim>\<open>rm\<close> with \<^verbatim>\<open>force\<close>) and the error is
  rethrown.
\<close>

datatype io_outcome = IoOk | WriteFileFails | RenameFails

datatype io_error = IoError

definition tempPath :: "string \<Rightarrow> string" where
  "tempPath uuid = PARTICIPANTS_FILE @ ''.'' @ uuid @ ''.tmp''"

definition persistState ::
  "registry \<Rightarrow> string \<Rightarrow> io_outcome \<Rightarrow> fs \<Rightarrow> (io_error + unit) \<times> fs" where
  "persistState st uuid outcome disk =
     (let snapshot = captureState st;
          payload = Parsed (json_of_state snapshot);
          tmp = tempPath uuid
      in case outcome of
           WriteFileFails \<Rightarrow> (Inl IoError, disk(tmp := None))
         | RenameFails \<Rightarrow> (Inl IoError, (disk(tmp \<mapsto> payload))(tmp := None))
         | IoOk \<Rightarrow> (Inr (), (disk(tmp \<mapsto> payload))(tmp := None, PARTICIPANTS_FILE \<mapsto> payload)))"

section \<open>Requests and their environment\<close>

text \<open>
  A request carries its body as \<^verbatim>\<open>req.json()\<close> returns it (\<open>None\<close> when that throws)
  and the address \<^verbatim>\<open>getRequestIp(req)\<close> reads from its headers. The environment of
  one request: the results of \<^verbatim>\<open>crypto.randomUUID()\<close> in \<^verbatim>\<open>createUniqueToken\<close>, in
  the order of the calls; the clock; the integers \<^verbatim>\<open>Math.random()\<close> selects in the
  shuffle; the identifier of the temporary file; the outcome of the write.
\<close>

record request =
  body :: "json option"
  ip :: "string option"

record env =
  uuids :: "string list"
  now :: string
  rnd :: "nat \<Rightarrow> nat"
  temp_uuid :: string
  io :: io_outcome

record app_config =
  adminPassword :: string

datatype payload = TextBody string | JsonBody json

datatype response = Response nat payload

fun status :: "response \<Rightarrow> nat" where
  "status (Response code b) = code"

subsection \<open>Tokens\<close>

definition randomToken :: "string \<Rightarrow> string" where
  "randomToken uuid = filter (\<lambda>c. c \<noteq> CHR ''-'') uuid"

text \<open>\<^verbatim>\<open>createUniqueToken\<close> draws until the token is new. \<open>None\<close>: every draw the
  environment supplies is taken, and the loop has not returned.\<close>

fun createUniqueToken :: "(string \<times> participant) list \<Rightarrow> string list \<Rightarrow> string option" where
  "createUniqueToken m [] = None"
| "createUniqueToken m (u # us) =
     (let token = randomToken u
      in if map_has m token then createUniqueToken m us else Some token)"

subsection \<open>Admin gate\<close>

definition extractPasswordFromRequest :: "request \<Rightarrow> string option" where
  "extractPasswordFromRequest req =
     (case body req of
        None \<Rightarrow> None
      | Some b \<Rightarrow>
          if truthy b \<and> typeof b = ''object'' then
            (case get_prop b ''password'' of
               Some (JStr v) \<Rightarrow> if trim v \<noteq> [] then Some (trim v) else None
             | _ \<Rightarrow> None)
          else None)"

definition authorizeAdmin :: "app_config \<Rightarrow> request \<Rightarrow> bool" where
  "authorizeAdmin config req = (extractPasswordFromRequest req = Some (adminPassword config))"

section \<open>shuffleAssignments\<close>

text \<open>
  The body of the Fisher-Yates loop exchanges positions \<open>i\<close> and \<open>j\<close>.
  \<^verbatim>\<open>Math.floor(Math.random() * (i + 1))\<close> is an integer from \<open>0\<close> to \<open>i\<close>; the
  model takes it from the environment as \<open>rnd i mod (i + 1)\<close>, which ranges over
  exactly these integers.
\<close>

definition swap :: "nat \<Rightarrow> nat \<Rightarrow> 'a list \<Rightarrow> 'a list" where
  "swap i j shuffled = (shuffled[i := shuffled ! j])[j := shuffled ! i]"

fun fisher_yates :: "(nat \<Rightarrow> nat) \<Rightarrow> nat \<Rightarrow> 'a list \<Rightarrow> 'a list" where
  "fisher_yates r 0 shuffled = shuffled"
| "fisher_yates r (Suc k) shuffled =
     (let i = Suc k; j = r i mod (i + 1)
      in fisher_yates r k (swap i j shuffled))"

text \<open>One call of the \<^verbatim>\<open>forEach\<close> callback.\<close>

definition assign_receiver ::
  "string list \<Rightarrow> (string \<times> participant) list \<Rightarrow> nat \<Rightarrow> (string \<times> participant) list" where
  "assign_receiver shuffled m index =
     (let giverToken = shuffled ! index;
          receiverToken = shuffled ! ((index + 1) mod length shuffled)
      in case map_get m giverToken of
           Some p \<Rightarrow> map_set m giverToken (p\<lparr>assignmentToken := Some receiverToken\<rparr>)
         | None \<Rightarrow> m)"

datatype js_error = Error string

definition shuffleAssignments :: "registry \<Rightarrow> (nat \<Rightarrow> nat) \<Rightarrow> string \<Rightarrow> js_error + registry" where
  "shuffleAssignments st r date =
     (let tokens = map fst (participants st)
      in if length tokens < 2
         then Inl (Error ''At least two participants are required to shuffle.'')
         else
           let shuffled = fisher_yates r (length tokens - 1) tokens
           in Inr (st\<lparr>participants :=
                         foldl (assign_receiver shuffled) (participants st)
                           [0..<length shuffled],
                       assignmentsReady := True,
                       lastShuffledAt := Some date\<rparr>))"

section \<open>The mutating routes\<close>

text \<open>Each handler takes the registry and the disk and returns the response with the
  registry and the disk it leaves behind. A handler is one step of the model: a request
  runs to its response before the next one starts, and the chain \<^verbatim>\<open>persistQueue\<close>,
  which orders the writes of overlapping requests, has a single write to order.
  \<open>register_POST\<close> returns \<open>None\<close> when \<^verbatim>\<open>createUniqueToken\<close> does not return,
  and \<open>Inl\<close> an error in place of the response when the handler throws.\<close>

subsection \<open>POST /api/register\<close>

definition clear_assignments :: "(string \<times> participant) list \<Rightarrow> (string \<times> participant) list" where
  "clear_assignments m = map (\<lambda>(k, p). (k, p\<lparr>assignmentToken := None\<rparr>)) m"

text \<open>The expression that reads \<^verbatim>\<open>name\<close> out of the request body; it throws when
  \<^verbatim>\<open>String\<close> does.\<close>

definition requested_name :: "json \<Rightarrow> type_error + string" where
  "requested_name b =
     (if typeof b = ''object'' \<and> truthy b
      then (case get_prop b ''name'' of
              Some v \<Rightarrow> (case js_String v of Inl err \<Rightarrow> Inl err | Inr s \<Rightarrow> Inr (trim s))
            | None \<Rightarrow> Inr [])
      else Inr [])"

definition register_POST ::
  "registry \<Rightarrow> fs \<Rightarrow> request \<Rightarrow> env \<Rightarrow> ((type_error + response) \<times> registry \<times> fs) option" where
  "register_POST st disk req e =
     (if \<not> registrationOpen st then
        Some (Inr (Response 403
                     (TextBody ''Registration is closed. Please contact the organizer.'')),
              st, disk)
      else case body req of
        None \<Rightarrow> Some (Inr (Response 400 (TextBody ''Invalid JSON'')), st, disk)
      | Some b \<Rightarrow>
          (case requested_name b of
             Inl err \<Rightarrow> Some (Inl err, st, disk)
           | Inr nm \<Rightarrow>
               if nm = [] then
                 Some (Inr (Response 400 (TextBody ''Name is required'')), st, disk)
               else if length nm > 64 then
                 Some (Inr (Response 400 (TextBody ''Name must be 64 characters or fewer'')),
                       st, disk)
               else
                 let previousState = captureState st
                 in (case createUniqueToken (participants st) (uuids e) of
                      None \<Rightarrow> None
                    | Some tok \<Rightarrow>
                        let st1 = st\<lparr>participants :=
                                       map_set (participants st) tok
                                         \<lparr>token = tok, name = nm, assignmentToken = None,
                                          registeredAt = now e, ipAddress = ip req\<rparr>\<rparr>;
                            st2 = st1\<lparr>assignmentsReady := False, lastShuffledAt := None\<rparr>;
                            st3 = st2\<lparr>participants := clear_assignments (participants st2)\<rparr>
                        in (case persistState st3 (temp_uuid e) (io e) disk of
                             (Inl err, disk') \<Rightarrow>
                               Some (Inr (Response 500
                                            (TextBody ''Unable to save registration. Try again.'')),
                                     restoreState previousState, disk')
                           | (Inr u, disk') \<Rightarrow>
                               Some (Inr (Response 201
                                            (JsonBody (JObj [(''token'', JStr tok),
                                                             (''name'', JStr nm),
                                                             (''assignmentsReady'',
                                                                JBool (assignmentsReady st3))]))),
                                     st3, disk')))))"

subsection \<open>POST /api/shuffle\<close>

definition shuffle_POST ::
  "app_config \<Rightarrow> registry \<Rightarrow> fs \<Rightarrow> request \<Rightarrow> env \<Rightarrow> response \<times> registry \<times> fs" where
  "shuffle_POST config st disk req e =
     (if \<not> authorizeAdmin config req then
        (Response 401
           (JsonBody (JObj [(''success'', JBool False),
                            (''message'', JStr ''Invalid admin password.'')])),
         st, disk)
      else
        let previousState = captureState st
        in case shuffleAssignments st (rnd e) (now e) of
             Inl (Error message) \<Rightarrow>
               (Response 400
                  (JsonBody (JObj [(''success'', JBool False), (''message'', JStr message)])),
                st, disk)
           | Inr st1 \<Rightarrow>
               let st2 = st1\<lparr>registrationOpen := False\<rparr>
               in (case persistState st2 (temp_uuid e) (io e) disk of
                    (Inl err, disk') \<Rightarrow>
                      (Response 500
                         (JsonBody (JObj [(''success'', JBool False),
                                          (''message'', JStr ''Unable to save shuffle results.'')])),
                       restoreState previousState, disk')
                  | (Inr u, disk') \<Rightarrow>
                      (Response 200
                         (JsonBody (JObj [(''success'', JBool True),
                                          (''participantCount'',
                                             number_of_count (length (participants st2))),
                                          (''shuffledAt'',
                                             json_of_nullable (lastShuffledAt st2))])),
                       st2, disk')))"

subsection \<open>POST /api/registration/reopen\<close>

definition reopen_POST ::
  "app_config \<Rightarrow> registry \<Rightarrow> fs \<Rightarrow> request \<Rightarrow> env \<Rightarrow> response \<times> registry \<times> fs" where
  "reopen_POST config st disk req e =
     (if \<not> authorizeAdmin config req then
        (Response 401
           (JsonBody (JObj [(''success'', JBool False),
                            (''message'', JStr ''Invalid admin password.'')])),
         st, disk)
      else
        let previousState = captureState st;
            st1 = st\<lparr>assignmentsReady := False, lastShuffledAt := None,
                     registrationOpen := True\<rparr>;
            st2 = st1\<lparr>participants := clear_assignments (participants st1)\<rparr>
        in case persistState st2 (temp_uuid e) (io e) disk of
             (Inl err, disk') \<Rightarrow>
               (Response 500
                  (JsonBody (JObj [(''success'', JBool False),
                                   (''message'', JStr ''Unable to reopen registration.'')])),
                restoreState previousState, disk')
           | (Inr u, disk') \<Rightarrow>
               (Response 200
                  (JsonBody (JObj [(''success'', JBool True),
                                   (''participantCount'',
                                      number_of_count (length (participants st2))),
                                   (''registrationOpen'', JBool (registrationOpen st2))])),
                st2, disk'))"

section \<open>Reachable registries\<close>

text \<open>
  The clock returns an ISO-8601 text and \<^verbatim>\<open>crypto.randomUUID()\<close> a UUID: neither the
  date nor a token made of a UUID is empty.
\<close>

definition env_ok :: "env \<Rightarrow> bool" where
  "env_ok e = (now e \<noteq> [] \<and> list_all (\<lambda>u. randomToken u \<noteq> []) (uuids e))"

text \<open>
  The registries the process can hold between two requests, requests being served one
  after the other: the one it starts with, the one the start-up load leaves (from whatever
  file is there), and the one each mutating route leaves.
\<close>

inductive reachable :: "registry \<Rightarrow> bool" where
  start: "reachable initial_registry"
| load: "loadPersistedState disk date initial_registry = Inr st \<Longrightarrow> date \<noteq> [] \<Longrightarrow> reachable st"
| register: "reachable st \<Longrightarrow> env_ok e \<Longrightarrow> register_POST st disk req e = Some (res, st', disk')
     \<Longrightarrow> reachable st'"
| shuffle: "reachable st \<Longrightarrow> env_ok e \<Longrightarrow> shuffle_POST config st disk req e = (resp, st', disk')
     \<Longrightarrow> reachable st'"
| reopen: "reachable st \<Longrightarrow> env_ok e \<Longrightarrow> reopen_POST config st disk req e = (resp, st', disk')
     \<Longrightarrow> reachable st'"

section \<open>Derived notions\<close>

subsection \<open>The registries the routes commit\<close>

text \<open>The registry each route holds when it reaches \<^verbatim>\<open>persistState\<close>, written
  field by field; the lemmas \<open>register_POST_passes\<close>, \<open>shuffle_POST_passes\<close> and
  \<open>reopen_POST_passes\<close> below show that the handlers commit exactly these.\<close>

definition registered :: "registry \<Rightarrow> string \<Rightarrow> string \<Rightarrow> string \<Rightarrow> string option \<Rightarrow> registry" where
  "registered st tok nm date addr =
     \<lparr>participants =
          clear_assignments (map_set (participants st) tok
             \<lparr>token = tok, name = nm, assignmentToken = None,
              registeredAt = date, ipAddress = addr\<rparr>),
      assignmentsReady = False, lastShuffledAt = None,
      registrationOpen = registrationOpen st\<rparr>"

definition shuffled :: "registry \<Rightarrow> (nat \<Rightarrow> nat) \<Rightarrow> string \<Rightarrow> registry" where
  "shuffled st r date =
     (let shuffled = fisher_yates r (length (participants st) - 1) (map fst (participants st))
      in \<lparr>participants =
            foldl (assign_receiver shuffled) (participants st) [0..<length shuffled],
          assignmentsReady = True, lastShuffledAt = Some date, registrationOpen = False\<rparr>)"

definition reopened :: "registry \<Rightarrow> registry" where
  "reopened st =
     \<lparr>participants = clear_assignments (participants st), assignmentsReady = False,
      lastShuffledAt = None, registrationOpen = True\<rparr>"

subsection \<open>Following assignments\<close>

text \<open>The token a participant gives to, and the token reached from \<open>t\<close> by following
  the assignments \<open>k\<close> times; \<open>None\<close> when the chain breaks (an unknown token, or a
  participant without an assignment).\<close>

definition giftee :: "(string \<times> participant) list \<Rightarrow> string \<Rightarrow> string option" where
  "giftee m t = (case map_get m t of Some p \<Rightarrow> assignmentToken p | None \<Rightarrow> None)"

fun follow :: "(string \<times> participant) list \<Rightarrow> nat \<Rightarrow> string \<Rightarrow> string option" where
  "follow m 0 t = Some t"
| "follow m (Suc k) t = (case giftee m t of None \<Rightarrow> None | Some t' \<Rightarrow> follow m k t')"

subsection \<open>Notions of the specification\<close>


text \<open>The observable state of the specification: for each participant the token, name,
  assignment and registration time, and the three flags.\<close>

definition observable ::
  "registry \<Rightarrow> (string \<times> string \<times> string option \<times> string) list \<times> bool \<times> bool \<times> string option" where
  "observable st =
     (map (\<lambda>(k, p). (token p, name p, assignmentToken p, registeredAt p)) (participants st),
      registrationOpen st, assignmentsReady st, lastShuffledAt st)"

subsection \<open>Well-formed registries\<close>

text \<open>What every registry the process holds satisfies: no token, name or registration time
  is empty, and no assignment or shuffle date is the empty string.\<close>

definition entry_wf :: "string \<times> participant \<Rightarrow> bool" where
  "entry_wf = (\<lambda>(k, p). token p \<noteq> [] \<and> name p \<noteq> [] \<and> registeredAt p \<noteq> []
                 \<and> assignmentToken p \<noteq> Some [])"

definition registry_wf :: "registry \<Rightarrow> bool" where
  "registry_wf st =
     (registry_ok st \<and> list_all entry_wf (participants st) \<and> lastShuffledAt st \<noteq> Some [])"

text \<open>The address a load keeps of a stored address.\<close>

definition stored_ip :: "string option \<Rightarrow> string option" where
  "stored_ip a =
     (case a of Some s \<Rightarrow> if trim s \<noteq> [] then Some (take 128 (trim s)) else None
      | None \<Rightarrow> None)"


section \<open>Example data\<close>

definition example_env :: env where
  "example_env =
     \<lparr>uuids = [''a1-b2'', ''0c-3d''], now = ''2025-12-01T10:00:00.000Z'', rnd = (\<lambda>i. 0),
      temp_uuid = ''7f'', io = IoOk\<rparr>"

definition failing_env :: env where
  "failing_env = example_env\<lparr>io := RenameFails\<rparr>"

definition example_request :: request where
  "example_request = \<lparr>body = Some (JObj [(''name'', JStr '' Carol '')]), ip = None\<rparr>"

definition closed_request :: request where
  "closed_request = \<lparr>body = Some (JObj [(''name'', JStr ''   '')]), ip = None\<rparr>"

definition example_config :: app_config where
  "example_config = \<lparr>adminPassword = ''secret''\<rparr>"

definition admin_request :: request where
  "admin_request = \<lparr>body = Some (JObj [(''password'', JStr ''secret'')]), ip = None\<rparr>"

definition empty_disk :: fs where
  "empty_disk = (\<lambda>path. None)"

definition alice :: participant where
  "alice = \<lparr>token = ''a11ce'', name = ''Alice'', assignmentToken = None,
            registeredAt = ''2025-11-30T09:00:00.000Z'', ipAddress = None\<rparr>"

definition bob :: participant where
  "bob = \<lparr>token = ''b0b'', name = ''Bob'', assignmentToken = None,
          registeredAt = ''2025-11-30T09:05:00.000Z'', ipAddress = Some ''10.0.0.7''\<rparr>"

definition carol :: participant where
  "carol = \<lparr>token = ''a1b2'', name = ''Carol'', assignmentToken = None,
            registeredAt = ''2025-12-01T10:00:00.000Z'', ipAddress = None\<rparr>"

definition solo_registered :: registry where
  "solo_registered =
     \<lparr>participants = [(''50105'', \<lparr>token = ''50105'', name = ''Solo'', assignmentToken = None,
                                   registeredAt = ''2025-11-30T09:00:00.000Z'',
                                   ipAddress = None\<rparr>)],
      assignmentsReady = False, lastShuffledAt = None, registrationOpen = True\<rparr>"

definition two_registered :: registry where
  "two_registered =
     \<lparr>participants = [(''a11ce'', alice), (''b0b'', bob)], assignmentsReady = False,
      lastShuffledAt = None, registrationOpen = True\<rparr>"

definition three_registered :: registry where
  "three_registered =
     \<lparr>participants = [(''a11ce'', alice), (''b0b'', bob), (''a1b2'', carol)],
      assignmentsReady = False, lastShuffledAt = None, registrationOpen = True\<rparr>"

definition three_shuffled :: registry where
  "three_shuffled =
     \<lparr>participants = [(''a11ce'', alice\<lparr>assignmentToken := Some ''b0b''\<rparr>),
                      (''b0b'', bob\<lparr>assignmentToken := Some ''a1b2''\<rparr>),
                      (''a1b2'', carol\<lparr>assignmentToken := Some ''a11ce''\<rparr>)],
      assignmentsReady = True, lastShuffledAt = Some ''2025-12-01T10:00:00.000Z'',
      registrationOpen = False\<rparr>"

definition ready_and_open :: registry where
  "ready_and_open =
     \<lparr>participants = [(''a11ce'', alice\<lparr>assignmentToken := Some ''b0b''\<rparr>),
                      (''b0b'', bob\<lparr>assignmentToken := Some ''a11ce''\<rparr>)],
      assignmentsReady = True, lastShuffledAt = Some ''2025-11-30T12:00:00.000Z'',
      registrationOpen = True\<rparr>"

definition open_and_ready :: registry where
  "open_and_ready =
     \<lparr>participants = [], assignmentsReady = True, lastShuffledAt = None,
      registrationOpen = True\<rparr>"

definition committed_disk :: fs where
  "committed_disk =
     empty_disk(PARTICIPANTS_FILE \<mapsto> Parsed (json_of_state (captureState two_registered)))"

definition stale_disk :: fs where
  "stale_disk =
     empty_disk(PARTICIPANTS_FILE \<mapsto> Parsed (json_of_state (captureState ready_and_open)))"

definition numeric_request :: request where
  "numeric_request = \<lparr>body = Some (JObj [(''name'', JNum ''1e+70'' True)]), ip = None\<rparr>"

definition unprintable_request :: request where
  "unprintable_request =
     \<lparr>body = Some (JObj [(''name'', JObj [(''toString'', JNull)])]), ip = None\<rparr>"




definition unprintable_file :: json where
  "unprintable_file =
     JObj [(''participants'',
            JArr [JObj [(''token'', JObj [(''toString'', JNull)]), (''name'', JStr ''Odd'')]])]"

definition legacy_file :: json where
  "legacy_file = JObj [(''participants'', JArr []), (''assignmentsReady'', JBool True)]"




section \<open>Facts about the model\<close>

subsection \<open>The map and its snapshots\<close>

lemma map_set_fresh: "k \<notin> set (map fst m) \<Longrightarrow> map_set m k v = m @ [(k, v)]"
  by (induction m) auto

lemma map_set_keys: "k \<in> set (map fst m) \<Longrightarrow> map fst (map_set m k v) = map fst m"
  by (induction m) force+

lemma map_set_distinct: "distinct (map fst m) \<Longrightarrow> distinct (map fst (map_set m k v))"
proof (cases "k \<in> set (map fst m)")
  case True
  assume "distinct (map fst m)"
  then show ?thesis by (simp add: map_set_keys [OF True])
next
  case False
  assume "distinct (map fst m)"
  then show ?thesis using False by (simp add: map_set_fresh)
qed

lemma map_get_map_set:
  "map_get (map_set m k v) k' = (if k' = k then Some v else map_get m k')"
  by (induction m) (auto simp: map_get_def)

lemma map_get_Some_key: "map_get m k = Some p \<Longrightarrow> k \<in> set (map fst m)"
  unfolding map_get_def by (metis map_of_eq_None_iff option.distinct(1) set_map)

lemma map_get_key: "k \<in> set (map fst m) \<Longrightarrow> \<exists>p. map_get m k = Some p"
  unfolding map_get_def by (metis map_of_eq_None_iff not_Some_eq set_map)

lemma map_get_SomeD: "map_get m k = Some p \<Longrightarrow> (k, p) \<in> set m"
  unfolding map_get_def by (rule map_of_SomeD)

lemma list_all_map_set:
  "list_all P m \<Longrightarrow> P (k, v) \<Longrightarrow> list_all P (map_set m k v)"
  by (induction m) auto

lemma foldl_restore_entry:
  "distinct (map fst m) \<Longrightarrow> list_all (\<lambda>(k, p). token p = k) m \<Longrightarrow>
   set (map fst acc) \<inter> set (map fst m) = {} \<Longrightarrow>
   foldl restore_entry acc
     (map (\<lambda>p. \<lparr>pp_token = token p, pp_name = name p,
                 pp_assignmentToken = assignmentToken p,
                 pp_registeredAt = registeredAt p,
                 pp_ipAddress = ipAddress p\<rparr>) (map snd m)) = acc @ m"
proof (induction m arbitrary: acc)
  case Nil
  then show ?case by simp
next
  case (Cons a m)
  obtain k p where a: "a = (k, p)" by (cases a)
  from Cons.prems a have kp: "token p = k" and fresh: "k \<notin> set (map fst acc)"
    and dm: "distinct (map fst m)" and la: "list_all (\<lambda>(k, p). token p = k) m"
    and knm: "k \<notin> set (map fst m)"
    by auto
  have step: "restore_entry acc \<lparr>pp_token = token p, pp_name = name p,
                 pp_assignmentToken = assignmentToken p,
                 pp_registeredAt = registeredAt p,
                 pp_ipAddress = ipAddress p\<rparr> = acc @ [(k, p)]"
    using kp fresh by (simp add: restore_entry_def map_set_fresh)
  have disj: "set (map fst (acc @ [(k, p)])) \<inter> set (map fst m) = {}"
    using Cons.prems(3) knm a by auto
  show ?case
    using Cons.IH [OF dm la disj] step a by simp
qed

lemma restore_capture: "registry_ok st \<Longrightarrow> restoreState (captureState st) = st"
  using foldl_restore_entry [of "participants st" "[]"]
  by (simp add: registry_ok_def restoreState_def captureState_def)

lemma foldl_restore_entry_ok:
  "distinct (map fst acc) \<Longrightarrow> list_all (\<lambda>(k, p). token p = k) acc \<Longrightarrow>
   distinct (map fst (foldl restore_entry acc es))
   \<and> list_all (\<lambda>(k, p). token p = k) (foldl restore_entry acc es)"
proof (induction es arbitrary: acc)
  case Nil
  then show ?case by simp
next
  case (Cons a es)
  have "distinct (map fst (restore_entry acc a))"
    using Cons.prems(1) by (simp add: restore_entry_def map_set_distinct)
  moreover have "list_all (\<lambda>(k, p). token p = k) (restore_entry acc a)"
    using Cons.prems(2) by (simp add: restore_entry_def list_all_map_set)
  ultimately show ?case
    using Cons.IH by simp
qed

lemma restoreState_ok: "registry_ok (restoreState s)"
  using foldl_restore_entry_ok [of "[]" "ps_participants s"]
  by (simp add: registry_ok_def restoreState_def)

lemma foldl_restore_entry_all:
  "list_all P acc \<Longrightarrow>
   list_all (\<lambda>e. P (pp_token e, \<lparr>token = pp_token e, name = pp_name e,
        assignmentToken = pp_assignmentToken e, registeredAt = pp_registeredAt e,
        ipAddress = pp_ipAddress e\<rparr>)) es \<Longrightarrow>
   list_all P (foldl restore_entry acc es)"
proof (induction es arbitrary: acc)
  case Nil
  then show ?case by simp
next
  case (Cons a es)
  have "list_all P (restore_entry acc a)"
    using Cons.prems by (simp add: restore_entry_def list_all_map_set)
  then show ?case
    using Cons.IH Cons.prems(2) by simp
qed

lemma restoreState_flags:
  "registrationOpen (restoreState s) = ps_registrationOpen s"
  "assignmentsReady (restoreState s) = ps_assignmentsReady s"
  "lastShuffledAt (restoreState s) = ps_lastShuffledAt s"
  by (simp_all add: restoreState_def)

lemma rollback_flags:
  "registrationOpen (restoreState (captureState st)) = registrationOpen st"
  "assignmentsReady (restoreState (captureState st)) = assignmentsReady st"
  "lastShuffledAt (restoreState (captureState st)) = lastShuffledAt st"
  by (simp_all add: restoreState_def captureState_def)

lemma clear_assignments_idem: "clear_assignments (clear_assignments m) = clear_assignments m"
  by (induction m) (auto simp: clear_assignments_def)

lemma clear_assignments_all_none:
  "list_all (\<lambda>(k, p). assignmentToken p = None) (clear_assignments m)"
  by (induction m) (auto simp: clear_assignments_def)

lemma clear_assignments_keys: "map fst (clear_assignments m) = map fst m"
  by (induction m) (auto simp: clear_assignments_def)

lemma clear_assignments_append:
  "clear_assignments (m @ m') = clear_assignments m @ clear_assignments m'"
  by (simp add: clear_assignments_def)

lemma clear_assignments_map_set:
  "map_get m k = Some p \<Longrightarrow>
   clear_assignments (map_set m k (p\<lparr>assignmentToken := a\<rparr>)) = clear_assignments m"
  by (induction m) (auto simp: clear_assignments_def map_get_def)

subsection \<open>Writing the file\<close>

lemma tempPath_not_canonical: "tempPath uuid \<noteq> PARTICIPANTS_FILE"
proof
  assume "tempPath uuid = PARTICIPANTS_FILE"
  then have "length (tempPath uuid) = length PARTICIPANTS_FILE" by simp
  then show False by (simp add: tempPath_def PARTICIPANTS_FILE_def)
qed

lemma persistState_eq:
  "persistState st uuid outcome disk =
     (if outcome = IoOk
      then (Inr (), disk(tempPath uuid := None,
                         PARTICIPANTS_FILE \<mapsto> Parsed (json_of_state (captureState st))))
      else (Inl IoError, disk(tempPath uuid := None)))"
  by (cases outcome) (simp_all add: persistState_def Let_def)

lemma persistState_ok:
  "persistState st uuid IoOk disk = (r, disk') \<Longrightarrow>
     r = Inr () \<and> disk' PARTICIPANTS_FILE = Some (Parsed (json_of_state (captureState st)))"
  by (auto simp: persistState_def Let_def)

subsection \<open>Tokens\<close>

lemma createUniqueToken_fresh:
  "createUniqueToken m us = Some tok \<Longrightarrow> \<not> map_has m tok \<and> tok \<in> randomToken ` set us"
  by (induction us) (auto simp: Let_def split: if_splits)

lemma createUniqueToken_returns:
  "\<exists>u \<in> set us. \<not> map_has m (randomToken u) \<Longrightarrow> \<exists>tok. createUniqueToken m us = Some tok"
  by (induction us) (auto simp: Let_def)

subsection \<open>The routes, case by case\<close>

lemma register_POST_passes:
  assumes "registrationOpen st" and "body req = Some b" and "requested_name b = Inr nm"
    and "nm \<noteq> []" and "length nm \<le> 64"
    and "createUniqueToken (participants st) (uuids e) = Some tok"
  shows "register_POST st disk req e =
     (if io e = IoOk
      then Some (Inr (Response 201
                   (JsonBody (JObj [(''token'', JStr tok), (''name'', JStr nm),
                                    (''assignmentsReady'', JBool False)]))),
                 registered st tok nm (now e) (ip req),
                 disk(tempPath (temp_uuid e) := None,
                      PARTICIPANTS_FILE \<mapsto>
                        Parsed (json_of_state (captureState
                          (registered st tok nm (now e) (ip req))))))
      else Some (Inr (Response 500 (TextBody ''Unable to save registration. Try again.'')),
                 restoreState (captureState st), disk(tempPath (temp_uuid e) := None)))"
  using assms
  by (cases st) (simp add: register_POST_def Let_def persistState_eq registered_def)

lemma register_POST_rejects:
  "\<not> registrationOpen st \<Longrightarrow> register_POST st disk req e =
     Some (Inr (Response 403 (TextBody ''Registration is closed. Please contact the organizer.'')),
           st, disk)"
  "registrationOpen st \<Longrightarrow> body req = None \<Longrightarrow> register_POST st disk req e =
     Some (Inr (Response 400 (TextBody ''Invalid JSON'')), st, disk)"
  "registrationOpen st \<Longrightarrow> body req = Some b \<Longrightarrow> requested_name b = Inr [] \<Longrightarrow>
     register_POST st disk req e =
       Some (Inr (Response 400 (TextBody ''Name is required'')), st, disk)"
  "registrationOpen st \<Longrightarrow> body req = Some b \<Longrightarrow> requested_name b = Inr nm \<Longrightarrow>
     64 < length nm \<Longrightarrow>
     register_POST st disk req e =
       Some (Inr (Response 400 (TextBody ''Name must be 64 characters or fewer'')), st, disk)"
  "registrationOpen st \<Longrightarrow> body req = Some b \<Longrightarrow> requested_name b = Inl err \<Longrightarrow>
     register_POST st disk req e = Some (Inl err, st, disk)"
  by (auto simp add: register_POST_def Let_def)

lemma register_success_cases:
  assumes "register_POST st disk req e = Some (Inr resp, st', disk')" and "status resp = 201"
  obtains tok b nm where
    "registrationOpen st" "body req = Some b"
    "requested_name b = Inr nm" "nm \<noteq> []" "length nm \<le> 64"
    "createUniqueToken (participants st) (uuids e) = Some tok"
    "io e = IoOk"
    "st' = registered st tok nm (now e) (ip req)"
    "disk' = disk(tempPath (temp_uuid e) := None,
                  PARTICIPANTS_FILE \<mapsto> Parsed (json_of_state (captureState st')))"
    "resp = Response 201
              (JsonBody (JObj [(''token'', JStr tok), (''name'', JStr nm),
                               (''assignmentsReady'', JBool False)]))"
proof -
  have op: "registrationOpen st"
    using assms register_POST_rejects(1) [of st disk req e] by (cases "registrationOpen st") auto
  obtain b where b: "body req = Some b"
    using assms op register_POST_rejects(2) [of st req disk e] by (cases "body req") auto
  obtain nm where nm: "requested_name b = Inr nm"
    using assms op b register_POST_rejects(5) [of st req b _ disk e]
    by (cases "requested_name b") auto
  have n1: "nm \<noteq> []"
    using assms op b nm register_POST_rejects(3) [of st req b disk e] by auto
  have n2: "length nm \<le> 64"
    using assms op b nm register_POST_rejects(4) [of st req b nm disk e]
    by (cases "64 < length nm") auto
  obtain tok where t: "createUniqueToken (participants st) (uuids e) = Some tok"
    using assms op b nm n1 n2
    by (cases "createUniqueToken (participants st) (uuids e)")
       (auto simp: register_POST_def Let_def)
  note eq = register_POST_passes [OF op b nm n1 n2 t, of disk]
  have io: "io e = IoOk"
    using assms eq by (cases "io e = IoOk") auto
  show ?thesis
    using that [OF op b nm n1 n2 t io] assms eq io by auto
qed

lemma register_result_cases:
  assumes "register_POST st disk req e = Some (res, st', disk')"
  shows "(\<exists>resp. res = Inr resp \<and> status resp = 201) \<or> st' = st
     \<or> st' = restoreState (captureState st)"
proof (cases "registrationOpen st")
  case False
  then show ?thesis using assms register_POST_rejects(1) [of st disk req e] by simp
next
  case op: True
  show ?thesis
  proof (cases "body req")
    case None
    then show ?thesis using assms op register_POST_rejects(2) [of st req disk e] by simp
  next
    case (Some b)
    show ?thesis
    proof (cases "requested_name b")
      case (Inl err)
      then show ?thesis
        using assms op Some register_POST_rejects(5) [of st req b err disk e] by simp
    next
      case (Inr nm)
      show ?thesis
      proof (cases "nm = [] \<or> 64 < length nm")
        case True
        then show ?thesis
          using assms op Some Inr register_POST_rejects(3) [of st req b disk e]
            register_POST_rejects(4) [of st req b nm disk e]
          by auto
      next
        case False
        then have n: "nm \<noteq> []" "length nm \<le> 64" by auto
        show ?thesis
        proof (cases "createUniqueToken (participants st) (uuids e)")
          case None
          then show ?thesis
            using assms op Some Inr n by (simp add: register_POST_def Let_def)
        next
          case tok: (Some tok)
          show ?thesis
            using assms register_POST_passes [OF op Some Inr n tok, of disk]
            by (cases "io e = IoOk") auto
        qed
      qed
    qed
  qed
qed

lemma registered_participants:
  assumes "createUniqueToken (participants st) us = Some tok"
  shows "participants (registered st tok nm date addr) =
           clear_assignments (participants st) @
             [(tok, \<lparr>token = tok, name = nm, assignmentToken = None,
                     registeredAt = date, ipAddress = addr\<rparr>)]"
proof -
  have "tok \<notin> set (map fst (participants st))"
    using createUniqueToken_fresh [OF assms] by (simp add: map_has_def)
  then show ?thesis
    by (simp add: registered_def map_set_fresh clear_assignments_append)
       (simp add: clear_assignments_def)
qed

lemma admin_POST_unauthorized:
  "\<not> authorizeAdmin config req \<Longrightarrow> status (fst (shuffle_POST config st disk req e)) = 401"
  "\<not> authorizeAdmin config req \<Longrightarrow> status (fst (reopen_POST config st disk req e)) = 401"
  by (simp_all add: shuffle_POST_def reopen_POST_def)

lemma shuffle_POST_too_few:
  "authorizeAdmin config req \<Longrightarrow> length (participants st) < 2 \<Longrightarrow>
   shuffle_POST config st disk req e =
     (Response 400
        (JsonBody (JObj [(''success'', JBool False),
                         (''message'',
                          JStr ''At least two participants are required to shuffle.'')])),
      st, disk)"
  by (simp add: shuffle_POST_def shuffleAssignments_def Let_def)

lemma shuffle_POST_passes:
  assumes "authorizeAdmin config req" and "2 \<le> length (participants st)"
  shows "shuffle_POST config st disk req e =
     (if io e = IoOk
      then (Response 200
              (JsonBody (JObj [(''success'', JBool True),
                               (''participantCount'',
                                number_of_count (length (participants (shuffled st (rnd e) (now e))))),
                               (''shuffledAt'', JStr (now e))])),
            shuffled st (rnd e) (now e),
            disk(tempPath (temp_uuid e) := None,
                 PARTICIPANTS_FILE \<mapsto>
                   Parsed (json_of_state (captureState (shuffled st (rnd e) (now e))))))
      else (Response 500
              (JsonBody (JObj [(''success'', JBool False),
                               (''message'', JStr ''Unable to save shuffle results.'')])),
            restoreState (captureState st), disk(tempPath (temp_uuid e) := None)))"
  using assms
  by (cases st)
     (simp add: shuffle_POST_def shuffleAssignments_def Let_def persistState_eq shuffled_def
        json_of_nullable_def)


lemma shuffle_success_cases:
  assumes "shuffle_POST config st disk req e = (resp, st', disk')" and "status resp = 200"
  shows "authorizeAdmin config req \<and> 2 \<le> length (participants st) \<and> io e = IoOk
     \<and> st' = shuffled st (rnd e) (now e)
     \<and> disk' = disk(tempPath (temp_uuid e) := None,
                     PARTICIPANTS_FILE \<mapsto> Parsed (json_of_state (captureState st')))"
proof -
  have a: "authorizeAdmin config req"
    using assms admin_POST_unauthorized(1) [of config req st disk e] by auto
  have l: "2 \<le> length (participants st)"
    using assms a shuffle_POST_too_few [of config req st disk e]
    by (cases "length (participants st) < 2") auto
  have i: "io e = IoOk"
    using assms shuffle_POST_passes [OF a l, of disk e] by (cases "io e = IoOk") auto
  show ?thesis
    using assms shuffle_POST_passes [OF a l, of disk e] a l i by auto
qed

lemma shuffle_result_cases:
  assumes "shuffle_POST config st disk req e = (resp, st', disk')"
  shows "status resp = 200 \<or> st' = st \<or> st' = restoreState (captureState st)"
proof (cases "authorizeAdmin config req")
  case False
  then show ?thesis using assms by (simp add: shuffle_POST_def)
next
  case a: True
  show ?thesis
  proof (cases "length (participants st) < 2")
    case True
    then show ?thesis using assms shuffle_POST_too_few [OF a True, of disk e] by simp
  next
    case False
    then have "2 \<le> length (participants st)" by simp
    from shuffle_POST_passes [OF a this, of disk e] assms show ?thesis
      by (cases "io e = IoOk") auto
  qed
qed

lemma reopen_POST_passes:
  assumes "authorizeAdmin config req"
  shows "reopen_POST config st disk req e =
     (if io e = IoOk
      then (Response 200
              (JsonBody (JObj [(''success'', JBool True),
                               (''participantCount'', number_of_count (length (participants st))),
                               (''registrationOpen'', JBool True)])),
            reopened st,
            disk(tempPath (temp_uuid e) := None,
                 PARTICIPANTS_FILE \<mapsto> Parsed (json_of_state (captureState (reopened st)))))
      else (Response 500
              (JsonBody (JObj [(''success'', JBool False),
                               (''message'', JStr ''Unable to reopen registration.'')])),
            restoreState (captureState st), disk(tempPath (temp_uuid e) := None)))"
  using assms
  by (cases st)
     (simp add: reopen_POST_def Let_def persistState_eq reopened_def clear_assignments_def)

lemma reopen_success_cases:
  assumes "reopen_POST config st disk req e = (resp, st', disk')" and "status resp = 200"
  shows "authorizeAdmin config req \<and> io e = IoOk \<and> st' = reopened st
     \<and> disk' = disk(tempPath (temp_uuid e) := None,
                     PARTICIPANTS_FILE \<mapsto> Parsed (json_of_state (captureState st')))"
proof -
  have a: "authorizeAdmin config req"
    using assms admin_POST_unauthorized(2) [of config req st disk e] by auto
  have i: "io e = IoOk"
    using assms reopen_POST_passes [OF a, of st disk e] by (cases "io e = IoOk") auto
  show ?thesis
    using assms reopen_POST_passes [OF a, of st disk e] a i by auto
qed

lemma reopen_result_cases:
  assumes "reopen_POST config st disk req e = (resp, st', disk')"
  shows "status resp = 200 \<or> st' = st \<or> st' = restoreState (captureState st)"
proof (cases "authorizeAdmin config req")
  case False
  then show ?thesis using assms by (simp add: reopen_POST_def)
next
  case True
  from reopen_POST_passes [OF True, of st disk e] assms show ?thesis
    by (cases "io e = IoOk") auto
qed

subsection \<open>The shuffle\<close>

lemma mset_swap_list:
  "i < length xs \<Longrightarrow> j < length xs \<Longrightarrow> mset (swap i j xs) = mset xs"
  unfolding swap_def by (simp add: mset_swap)

lemma length_swap: "length (swap i j xs) = length xs"
  by (simp add: swap_def)

lemma mset_fisher_yates: "k < length xs \<Longrightarrow> mset (fisher_yates r k xs) = mset xs"
proof (induction k arbitrary: xs)
  case 0
  then show ?case by simp
next
  case (Suc k)
  have j: "r (Suc k) mod (Suc k + 1) < length xs"
  proof -
    have "r (Suc k) mod (Suc k + 1) < Suc k + 1" by (rule mod_less_divisor) simp
    then show ?thesis using Suc.prems by linarith
  qed
  have "mset (fisher_yates r k (swap (Suc k) (r (Suc k) mod (Suc k + 1)) xs)) =
      mset (swap (Suc k) (r (Suc k) mod (Suc k + 1)) xs)"
    using Suc.prems by (intro Suc.IH) (simp add: length_swap)
  then show ?case
    using Suc.prems j by (simp add: Let_def mset_swap_list)
qed

lemma assign_receiver_keys: "map fst (assign_receiver sh m i) = map fst m"
proof (cases "map_get m (sh ! i)")
  case None
  then show ?thesis by (simp add: assign_receiver_def Let_def)
next
  case (Some p)
  then show ?thesis
    using map_get_Some_key [OF Some] by (simp add: assign_receiver_def Let_def map_set_keys)
qed

lemma assign_receiver_giftee:
  "giftee (assign_receiver sh m i) t =
     (if t = sh ! i \<and> t \<in> set (map fst m) then Some (sh ! ((i + 1) mod length sh))
      else giftee m t)"
proof (cases "map_get m (sh ! i)")
  case None
  then have "sh ! i \<notin> set (map fst m)"
    using map_get_key [of "sh ! i" m] by auto
  with None show ?thesis
    by (auto simp: assign_receiver_def Let_def)
next
  case (Some p)
  then have "sh ! i \<in> set (map fst m)"
    by (rule map_get_Some_key)
  with Some show ?thesis
    by (simp add: assign_receiver_def Let_def giftee_def map_get_map_set)
qed

lemma foldl_assign_keys: "map fst (foldl (assign_receiver sh) m is) = map fst m"
  by (induction "is" arbitrary: m) (simp_all add: assign_receiver_keys)

lemma foldl_assign_giftee:
  assumes "distinct sh" and "set sh \<subseteq> set (map fst m)" and "j < length sh"
    and "\<forall>i \<in> set is. i < length sh"
  shows "giftee (foldl (assign_receiver sh) m is) (sh ! j) =
     (if j \<in> set is then Some (sh ! ((j + 1) mod length sh)) else giftee m (sh ! j))"
  using assms(4)
proof (induction "is" rule: rev_induct)
  case Nil
  then show ?case by simp
next
  case (snoc i "is")
  have i: "i < length sh" using snoc.prems by simp
  have eq: "sh ! j = sh ! i \<longleftrightarrow> j = i"
    using assms(1,3) i by (simp add: nth_eq_iff_index_eq)
  have mem: "sh ! j \<in> set (map fst (foldl (assign_receiver sh) m is))"
    using assms(2,3) by (simp only: foldl_assign_keys) (meson nth_mem subsetD)
  show ?case
    using snoc eq mem by (simp add: assign_receiver_giftee)
qed


lemma assign_receiver_tokens:
  assumes "list_all (\<lambda>(k, p). token p = k) m"
  shows "list_all (\<lambda>(k, p). token p = k) (assign_receiver sh m i)"
proof (cases "map_get m (sh ! i)")
  case None
  then show ?thesis using assms by (simp add: assign_receiver_def Let_def)
next
  case (Some p)
  have "token p = sh ! i"
    using map_get_SomeD [OF Some] assms by (auto simp: list_all_iff)
  then show ?thesis
    using Some assms by (simp add: assign_receiver_def Let_def list_all_map_set)
qed

lemma foldl_assign_tokens:
  "list_all (\<lambda>(k, p). token p = k) m \<Longrightarrow>
   list_all (\<lambda>(k, p). token p = k) (foldl (assign_receiver sh) m is)"
  by (induction "is" arbitrary: m) (simp_all add: assign_receiver_tokens)

lemma assign_receiver_clear:
  "clear_assignments (assign_receiver sh m i) = clear_assignments m"
  by (cases "map_get m (sh ! i)")
     (simp_all add: assign_receiver_def Let_def clear_assignments_map_set)

lemma foldl_assign_clear:
  "clear_assignments (foldl (assign_receiver sh) m is) = clear_assignments m"
  by (induction "is" arbitrary: m) (simp_all add: assign_receiver_clear)

lemma giftee_entry:
  "distinct (map fst m) \<Longrightarrow> (k, p) \<in> set m \<Longrightarrow> giftee m k = assignmentToken p"
  by (simp add: giftee_def map_get_def)

lemma succ_mod_neq:
  assumes "2 \<le> n" and "j < n"
  shows "(j + 1) mod n \<noteq> (j::nat)"
proof (cases "j + 1 < n")
  case True
  then show ?thesis by simp
next
  case False
  then have "j + 1 = n" using assms(2) by linarith
  then have "(j + 1) mod n = 0" by simp
  moreover have "j \<noteq> 0" using \<open>j + 1 = n\<close> assms(1) by linarith
  ultimately show ?thesis by simp
qed

lemma follow_rotation:
  assumes "\<forall>j < length sh. giftee m (sh ! j) = Some (sh ! ((j + 1) mod length sh))"
    and "j < length sh"
  shows "follow m k (sh ! j) = Some (sh ! ((j + k) mod length sh))"
  using assms(2)
proof (induction k arbitrary: j)
  case 0
  then show ?case by simp
next
  case (Suc k)
  have "0 < length sh"
    using Suc.prems by (cases sh) simp_all
  then have n: "(j + 1) mod length sh < length sh"
    by (rule mod_less_divisor)
  have "follow m (Suc k) (sh ! j) = follow m k (sh ! ((j + 1) mod length sh))"
    using assms(1) Suc.prems by simp
  also have "\<dots> = Some (sh ! (((j + 1) mod length sh + k) mod length sh))"
    by (rule Suc.IH [OF n])
  also have "((j + 1) mod length sh + k) mod length sh = (j + Suc k) mod length sh"
    by (simp add: mod_add_left_eq)
  finally show ?case .
qed

lemma visits_rotate:
  assumes "j < length sh"
  shows "map (\<lambda>k. sh ! ((j + k) mod length sh)) [0..<length sh] = rotate j sh"
  by (rule nth_equalityI) (simp_all add: nth_rotate)

lemma shuffled_cycle:
  fixes st :: registry and r :: "nat \<Rightarrow> nat" and date :: string
  assumes ok: "registry_ok st" and two: "2 \<le> length (participants st)"
  defines "m' \<equiv> participants (shuffled st r date)"
  shows "map fst m' = map fst (participants st)"
    and "clear_assignments m' = clear_assignments (participants st)"
    and "list_all (\<lambda>(k, p). assignmentToken p \<noteq> None \<and> assignmentToken p \<noteq> Some (token p)) m'"
    and "\<forall>t \<in> set (map fst m').
           distinct (map (\<lambda>k. follow m' k t) [0..<length m'])
         \<and> set (map (\<lambda>k. follow m' k t) [0..<length m']) = Some ` set (map fst m')
         \<and> follow m' (length m') t = Some t"
proof -
  define m where "m = participants st"
  define sh where "sh = fisher_yates r (length m - 1) (map fst m)"
  have dk: "distinct (map fst m)" and tk: "list_all (\<lambda>(k, p). token p = k) m"
    using ok by (simp_all add: registry_ok_def m_def)
  have ms: "mset sh = mset (map fst m)"
    unfolding sh_def using two by (intro mset_fisher_yates) (simp add: m_def)
  have len: "length sh = length m"
    using mset_eq_length [OF ms] by simp
  have dsh: "distinct sh"
    using mset_eq_imp_distinct_iff [OF ms] dk by simp
  have ssh: "set sh = set (map fst m)"
    using mset_eq_setD [OF ms] .
  have m': "m' = foldl (assign_receiver sh) m [0..<length sh]"
    by (simp add: m'_def shuffled_def Let_def m_def sh_def)
  show keys: "map fst m' = map fst (participants st)"
    by (simp add: m' foldl_assign_keys m_def)
  show "clear_assignments m' = clear_assignments (participants st)"
    by (simp add: m' foldl_assign_clear m_def)
  have n2: "2 \<le> length sh" using two len by (simp add: m_def)
  have lm': "length m' = length sh"
    using keys len by (metis length_map m_def)
  have step: "giftee m' (sh ! j) = Some (sh ! ((j + 1) mod length sh))" if "j < length sh" for j
    using foldl_assign_giftee [OF dsh _ that, of m "[0..<length sh]"] ssh that
    by (simp add: m')
  have tk': "list_all (\<lambda>(k, p). token p = k) m'"
    by (simp add: m' foldl_assign_tokens tk)
  have dk': "distinct (map fst m')"
    using keys dk by (simp add: m_def)
  show "list_all (\<lambda>(k, p). assignmentToken p \<noteq> None \<and> assignmentToken p \<noteq> Some (token p)) m'"
    unfolding list_all_iff
  proof (intro ballI)
    fix x assume x: "x \<in> set m'"
    obtain k p where kp: "x = (k, p)" by (cases x)
    have "k \<in> set sh"
      using x kp keys ssh by (metis fst_conv image_eqI m_def set_map)
    then obtain j where j: "j < length sh" "sh ! j = k"
      by (auto simp: in_set_conv_nth)
    have a: "assignmentToken p = Some (sh ! ((j + 1) mod length sh))"
      using giftee_entry [OF dk', of k p] x kp step [OF j(1)] j(2) by simp
    have t: "token p = k"
      using tk' x kp by (auto simp: list_all_iff)
    have "(j + 1) mod length sh < length sh"
      using j(1) by (intro mod_less_divisor) linarith
    then have "sh ! ((j + 1) mod length sh) \<noteq> sh ! j"
      using dsh j(1) succ_mod_neq [OF n2 j(1)] by (simp add: nth_eq_iff_index_eq)
    then show "case x of (k, p) \<Rightarrow>
        assignmentToken p \<noteq> None \<and> assignmentToken p \<noteq> Some (token p)"
      using a t j(2) kp by simp
  qed
  show "\<forall>t \<in> set (map fst m').
           distinct (map (\<lambda>k. follow m' k t) [0..<length m'])
         \<and> set (map (\<lambda>k. follow m' k t) [0..<length m']) = Some ` set (map fst m')
         \<and> follow m' (length m') t = Some t"
  proof (intro ballI)
    fix t assume "t \<in> set (map fst m')"
    then have "t \<in> set sh"
      using keys ssh by (simp add: m_def)
    then obtain j where j: "j < length sh" "sh ! j = t"
      by (auto simp: in_set_conv_nth)
    have fol: "follow m' k t = Some (sh ! ((j + k) mod length sh))" for k
      using follow_rotation [of sh m' j k] step j by simp
    have "map (\<lambda>k. follow m' k t) [0..<length m'] =
        map Some (map (\<lambda>k. sh ! ((j + k) mod length sh)) [0..<length sh])"
      by (simp add: fol lm')
    then have vis: "map (\<lambda>k. follow m' k t) [0..<length m'] = map Some (rotate j sh)"
      by (simp only: visits_rotate [OF j(1)])
    have "distinct (map Some (rotate j sh))"
      using dsh by (simp add: distinct_map)
    moreover have "set (map Some (rotate j sh)) = Some ` set (map fst m')"
      using ssh keys by (simp add: m_def)
    moreover have "follow m' (length m') t = Some t"
      using fol [of "length sh"] j(2) j(1) by (simp add: lm')
    ultimately show "distinct (map (\<lambda>k. follow m' k t) [0..<length m'])
         \<and> set (map (\<lambda>k. follow m' k t) [0..<length m']) = Some ` set (map fst m')
         \<and> follow m' (length m') t = Some t"
      by (simp only: vis)
  qed
qed


subsection \<open>Validation of a loaded file\<close>

lemma get_prop_not_object:
  "\<not> truthy r \<or> typeof r \<noteq> ''object'' \<Longrightarrow> get_prop r k = None"
  by (cases r) simp_all

lemma property_text_not_object:
  "\<not> truthy r \<or> typeof r \<noteq> ''object'' \<Longrightarrow> property_text r k = Inr []"
  by (simp add: property_text_def get_prop_not_object)

lemma property_text_string:
  "get_prop r k = Some (JStr s) \<Longrightarrow> property_text r k = Inr s"
  by (simp add: property_text_def)

lemma property_text_absent: "get_prop r k = None \<Longrightarrow> property_text r k = Inr []"
  by (simp add: property_text_def)

lemma sanitize_participant_texts:
  assumes "property_text r ''token'' = Inr t" and "property_text r ''name'' = Inr n"
  shows "sanitize_participant date r =
     (if t = [] \<or> n = [] then Inr None
      else Inr (Some
        \<lparr>pp_token = t, pp_name = n,
         pp_assignmentToken =
           (case get_prop r ''assignmentToken'' of
              Some (JStr s) \<Rightarrow> if s \<noteq> [] then Some s else None | _ \<Rightarrow> None),
         pp_registeredAt =
           (case get_prop r ''registeredAt'' of
              Some (JStr s) \<Rightarrow> if s \<noteq> [] then s else date | _ \<Rightarrow> date),
         pp_ipAddress =
           (case get_prop r ''ipAddress'' of
              Some (JStr s) \<Rightarrow> if trim s \<noteq> [] then Some (take 128 (trim s)) else None
            | _ \<Rightarrow> None)\<rparr>))"
proof (cases "\<not> truthy r \<or> typeof r \<noteq> ''object''")
  case True
  have "t = []"
    using property_text_not_object [OF True, of "''token''"] assms(1) by simp
  moreover have "sanitize_participant date r = Inr None"
    using True by (simp add: sanitize_participant_def)
  ultimately show ?thesis by simp
next
  case False
  have raw: "(case (case v of None \<Rightarrow> JNull | Some x \<Rightarrow> x) of JStr s \<Rightarrow> f s | _ \<Rightarrow> d) =
      (case v of Some (JStr s) \<Rightarrow> f s | _ \<Rightarrow> d)" for v :: "json option" and f :: "string \<Rightarrow> 'a" and d
    by (simp split: option.splits json.splits)
  show ?thesis
    using False assms by (simp add: sanitize_participant_def Let_def raw)
qed

lemma sanitize_participant_Inl:
  "sanitize_participant date r = Inl err \<longleftrightarrow>
     property_text r ''token'' = Inl err
     \<or> (\<exists>t. property_text r ''token'' = Inr t) \<and> property_text r ''name'' = Inl err"
proof (cases "\<not> truthy r \<or> typeof r \<noteq> ''object''")
  case True
  then show ?thesis
    using property_text_not_object [OF True]
    by (simp add: sanitize_participant_def)
next
  case False
  then show ?thesis
    by (cases "property_text r ''token''"; cases "property_text r ''name''")
       (simp_all add: sanitize_participant_def Let_def)
qed

lemma sanitize_participant_Inr:
  assumes "sanitize_participant date r = Inr p"
  obtains t n where "property_text r ''token'' = Inr t" "property_text r ''name'' = Inr n"
proof (cases "property_text r ''token''")
  case (Inl err)
  then show ?thesis
    using assms sanitize_participant_Inl [of date r err] by simp
next
  case t: (Inr t)
  show ?thesis
  proof (cases "property_text r ''name''")
    case (Inl err)
    then show ?thesis
      using assms t sanitize_participant_Inl [of date r err] by simp
  next
    case (Inr n)
    then show ?thesis using t that by blast
  qed
qed

lemma sanitize_participant_Some:
  assumes "sanitize_participant date r = Inr (Some p)"
  shows "property_text r ''token'' = Inr (pp_token p)" and "pp_token p \<noteq> []"
    and "property_text r ''name'' = Inr (pp_name p)" and "pp_name p \<noteq> []"
    and "pp_registeredAt p =
           (case get_prop r ''registeredAt'' of
              Some (JStr s) \<Rightarrow> if s \<noteq> [] then s else date | _ \<Rightarrow> date)"
    and "pp_assignmentToken p =
           (case get_prop r ''assignmentToken'' of
              Some (JStr s) \<Rightarrow> if s \<noteq> [] then Some s else None | _ \<Rightarrow> None)"
    and "pp_ipAddress p =
           (case get_prop r ''ipAddress'' of
              Some (JStr s) \<Rightarrow> if trim s \<noteq> [] then Some (take 128 (trim s)) else None
            | _ \<Rightarrow> None)"
proof -
  from assms obtain t n where
    t: "property_text r ''token'' = Inr t" and n: "property_text r ''name'' = Inr n"
    by (rule sanitize_participant_Inr)
  note eq = sanitize_participant_texts [OF t n, of date]
  have ne: "\<not> (t = [] \<or> n = [])"
    using assms eq by (cases "t = [] \<or> n = []") simp_all
  have p: "p =
        \<lparr>pp_token = t, pp_name = n,
         pp_assignmentToken =
           (case get_prop r ''assignmentToken'' of
              Some (JStr s) \<Rightarrow> if s \<noteq> [] then Some s else None | _ \<Rightarrow> None),
         pp_registeredAt =
           (case get_prop r ''registeredAt'' of
              Some (JStr s) \<Rightarrow> if s \<noteq> [] then s else date | _ \<Rightarrow> date),
         pp_ipAddress =
           (case get_prop r ''ipAddress'' of
              Some (JStr s) \<Rightarrow> if trim s \<noteq> [] then Some (take 128 (trim s)) else None
            | _ \<Rightarrow> None)\<rparr>"
    using assms eq ne by (simp only: if_False sum.inject option.inject)
  show "property_text r ''token'' = Inr (pp_token p)" "pp_token p \<noteq> []"
    "property_text r ''name'' = Inr (pp_name p)" "pp_name p \<noteq> []"
    using t n ne by (simp_all add: p)
  show "pp_registeredAt p =
           (case get_prop r ''registeredAt'' of
              Some (JStr s) \<Rightarrow> if s \<noteq> [] then s else date | _ \<Rightarrow> date)"
    by (subst p) (simp only: persisted_participant.simps)
  show "pp_assignmentToken p =
           (case get_prop r ''assignmentToken'' of
              Some (JStr s) \<Rightarrow> if s \<noteq> [] then Some s else None | _ \<Rightarrow> None)"
    by (subst p) (simp only: persisted_participant.simps)
  show "pp_ipAddress p =
           (case get_prop r ''ipAddress'' of
              Some (JStr s) \<Rightarrow> if trim s \<noteq> [] then Some (take 128 (trim s)) else None
            | _ \<Rightarrow> None)"
    by (subst p) (simp only: persisted_participant.simps)
qed

lemma collect_results_append:
  "collect_results (rs @ rs') =
     (case collect_results rs of
        Inl e \<Rightarrow> Inl e
      | Inr xs \<Rightarrow> (case collect_results rs' of Inl e \<Rightarrow> Inl e | Inr ys \<Rightarrow> Inr (xs @ ys)))"
proof (induction rs)
  case Nil
  show ?case by (simp split: sum.splits)
next
  case (Cons a rs)
  then show ?case by (cases a) (simp_all split: sum.splits)
qed

lemma collect_results_Inr: "collect_results rs = Inr xs \<Longrightarrow> rs = map Inr xs"
proof (induction rs arbitrary: xs)
  case Nil
  then show ?case by simp
next
  case (Cons a rs)
  then show ?case by (cases a) (auto split: sum.splits)
qed

lemma collect_results_all:
  "\<forall>x \<in> set xs. f x = Inr (g x) \<Longrightarrow> collect_results (map f xs) = Inr (map g xs)"
  by (induction xs) simp_all

lemma map_filter_Some: "List.map_filter (\<lambda>item. item) (map (\<lambda>x. Some (g x)) xs) = map g xs"
  by (induction xs) (simp_all add: List.map_filter_simps)

lemma map_filter_mem: "x \<in> set (List.map_filter f xs) \<Longrightarrow> \<exists>y \<in> set xs. f y = Some x"
  by (auto simp: List.map_filter_def)


lemma sanitize_Inr:
  assumes "sanitize date parsed records = Inr s"
  obtains items where "map (sanitize_participant date) records = map Inr items"
    and "ps_participants s = List.map_filter (\<lambda>item. item) items"
proof (cases "collect_results (map (sanitize_participant date) records)")
  case (Inl err)
  then show ?thesis using assms by (simp add: sanitize_def)
next
  case (Inr items)
  have "ps_participants s = List.map_filter (\<lambda>item. item) items"
    using assms Inr by (auto simp: sanitize_def)
  then show ?thesis
    using that collect_results_Inr [OF Inr] by blast
qed

lemma sanitize_flags:
  assumes "sanitize date parsed records = Inr s"
  shows "ps_assignmentsReady s =
           (case get_prop parsed ''assignmentsReady'' of Some v \<Rightarrow> truthy v | None \<Rightarrow> False)"
    and "ps_lastShuffledAt s =
           (case get_prop parsed ''lastShuffledAt'' of
              Some (JStr t) \<Rightarrow> if t \<noteq> [] then Some t else None | _ \<Rightarrow> None)"
    and "ps_registrationOpen s =
           (case get_prop parsed ''registrationOpen'' of Some (JBool b) \<Rightarrow> b | _ \<Rightarrow> True)"
  using assms
  by (cases "collect_results (map (sanitize_participant date) records)";
      auto simp: sanitize_def)+






lemma sanitize_participant_wf:
  assumes "sanitize_participant date r = Inr (Some p)" and "date \<noteq> []"
  shows "pp_token p \<noteq> [] \<and> pp_name p \<noteq> [] \<and> pp_registeredAt p \<noteq> []
     \<and> pp_assignmentToken p \<noteq> Some []"
proof -
  note f = sanitize_participant_Some [OF assms(1)]
  have "pp_registeredAt p \<noteq> []"
    using assms(2) by (simp add: f(5) split: option.splits json.splits)
  moreover have "pp_assignmentToken p \<noteq> Some []"
    by (simp add: f(6) split: option.splits json.splits)
  ultimately show ?thesis using f(2,4) by simp
qed

lemma sanitize_wf:
  assumes "date \<noteq> []" and "sanitize date parsed records = Inr s"
  shows "registry_wf (restoreState s)"
proof -
  from assms(2) obtain items where
    all: "map (sanitize_participant date) records = map Inr items"
    and parts: "ps_participants s = List.map_filter (\<lambda>item. item) items"
    by (rule sanitize_Inr)
  have each: "list_all (\<lambda>e. entry_wf (pp_token e, \<lparr>token = pp_token e, name = pp_name e,
        assignmentToken = pp_assignmentToken e, registeredAt = pp_registeredAt e,
        ipAddress = pp_ipAddress e\<rparr>)) (ps_participants s)"
    unfolding list_all_iff
  proof
    fix x assume "x \<in> set (ps_participants s)"
    then have "Some x \<in> set items"
      using map_filter_mem [of x "\<lambda>item. item" items] by (simp add: parts)
    then have "Inr (Some x) \<in> set (map (sanitize_participant date) records)"
      by (simp add: all)
    then obtain y where "sanitize_participant date y = Inr (Some x)"
      by auto
    from sanitize_participant_wf [OF this assms(1)]
    show "entry_wf (pp_token x, \<lparr>token = pp_token x, name = pp_name x,
        assignmentToken = pp_assignmentToken x, registeredAt = pp_registeredAt x,
        ipAddress = pp_ipAddress x\<rparr>)"
      by (simp add: entry_wf_def)
  qed
  have "list_all entry_wf (participants (restoreState s))"
    using foldl_restore_entry_all [of entry_wf "[]", OF _ each] by (simp add: restoreState_def)
  moreover have "lastShuffledAt (restoreState s) \<noteq> Some []"
    by (simp add: restoreState_def sanitize_flags(2) [OF assms(2)]
          split: option.splits json.splits)
  ultimately show ?thesis
    using restoreState_ok [of s] by (simp add: registry_wf_def)
qed

subsection \<open>Every reachable registry is well formed\<close>

lemma wf_initial: "registry_wf initial_registry"
  by (simp add: registry_wf_def registry_ok_def initial_registry_def)

lemma wf_load:
  assumes "loadPersistedState disk date initial_registry = Inr st" and "date \<noteq> []"
  shows "registry_wf st"
proof (cases "disk PARTICIPANTS_FILE")
  case None
  then show ?thesis using assms wf_initial by (simp add: loadPersistedState_def)
next
  case (Some f)
  show ?thesis
  proof (cases f)
    case Garbage
    then show ?thesis using assms Some by (simp add: loadPersistedState_def)
  next
    case (Parsed parsed)
    then obtain records s where "sanitize date parsed records = Inr s" "st = restoreState s"
      using assms(1) Some
      by (auto simp: loadPersistedState_def
               split: if_splits option.splits json.splits sum.splits)
    then show ?thesis using sanitize_wf [OF assms(2)] by simp
  qed
qed

lemma clear_assignments_wf:
  "list_all entry_wf m \<Longrightarrow> list_all entry_wf (clear_assignments m)"
  by (induction m) (auto simp: clear_assignments_def entry_wf_def)

lemma clear_assignments_ok:
  "distinct (map fst m) \<and> list_all (\<lambda>(k, p). token p = k) m \<Longrightarrow>
   distinct (map fst (clear_assignments m))
   \<and> list_all (\<lambda>(k, p). token p = k) (clear_assignments m)"
proof -
  assume a: "distinct (map fst m) \<and> list_all (\<lambda>(k, p). token p = k) m"
  have "list_all (\<lambda>(k, p). token p = k) (clear_assignments m)"
    using a by (induction m) (auto simp: clear_assignments_def)
  then show ?thesis
    using a by (simp add: clear_assignments_keys)
qed

lemma wf_rollback: "registry_wf st \<Longrightarrow> registry_wf (restoreState (captureState st))"
  by (simp add: registry_wf_def restore_capture)

lemma wf_registered:
  assumes wf: "registry_wf st" and env: "env_ok e"
    and t: "createUniqueToken (participants st) (uuids e) = Some tok" and n: "nm \<noteq> []"
  shows "registry_wf (registered st tok nm (now e) addr)"
proof -
  let ?new = "\<lparr>token = tok, name = nm, assignmentToken = None,
                registeredAt = now e, ipAddress = addr\<rparr>"
  have fresh: "tok \<notin> set (map fst (participants st))"
    using createUniqueToken_fresh [OF t] by (simp add: map_has_def)
  have "tok \<in> randomToken ` set (uuids e)"
    using createUniqueToken_fresh [OF t] by simp
  then have tok: "tok \<noteq> []"
    using env by (auto simp: env_ok_def list_all_iff)
  have date: "now e \<noteq> []"
    using env by (simp add: env_ok_def)
  have set: "map_set (participants st) tok ?new = participants st @ [(tok, ?new)]"
    using fresh by (rule map_set_fresh)
  have "distinct (map fst (participants st @ [(tok, ?new)]))
      \<and> list_all (\<lambda>(k, p). token p = k) (participants st @ [(tok, ?new)])"
    using wf fresh by (simp add: registry_wf_def registry_ok_def)
  then have ok: "registry_ok (registered st tok nm (now e) addr)"
    using clear_assignments_ok [of "participants st @ [(tok, ?new)]"]
    by (simp add: registry_ok_def registered_def set)
  have "list_all entry_wf (participants st @ [(tok, ?new)])"
    using wf tok n date by (simp add: registry_wf_def entry_wf_def)
  then have "list_all entry_wf (participants (registered st tok nm (now e) addr))"
    using clear_assignments_wf [of "participants st @ [(tok, ?new)]"]
    by (simp add: registered_def set)
  then show ?thesis
    using ok by (simp add: registry_wf_def registered_def)
qed

lemma wf_register:
  assumes "registry_wf st" and "env_ok e"
    and run: "register_POST st disk req e = Some (res, st', disk')"
  shows "registry_wf st'"
proof (cases "\<exists>resp. res = Inr resp \<and> status resp = 201")
  case True
  then obtain resp where "register_POST st disk req e = Some (Inr resp, st', disk')"
    and "status resp = 201"
    using run by blast
  then obtain tok b nm where
    "createUniqueToken (participants st) (uuids e) = Some tok" "nm \<noteq> []"
    "st' = registered st tok nm (now e) (ip req)"
    by (rule register_success_cases)
  then show ?thesis using wf_registered [OF assms(1,2)] by simp
next
  case False
  then show ?thesis
    using register_result_cases [OF run] assms(1) wf_rollback by auto
qed

lemma wf_reopened: "registry_wf st \<Longrightarrow> registry_wf (reopened st)"
  using clear_assignments_ok [of "participants st"] clear_assignments_wf [of "participants st"]
  by (simp add: registry_wf_def registry_ok_def reopened_def)

lemma wf_reopen:
  assumes "registry_wf st" and run: "reopen_POST config st disk req e = (resp, st', disk')"
  shows "registry_wf st'"
proof (cases "status resp = 200")
  case True
  then show ?thesis
    using reopen_success_cases [OF run True] wf_reopened [OF assms(1)] by simp
next
  case False
  then show ?thesis
    using reopen_result_cases [OF run] assms(1) wf_rollback by auto
qed

lemma assign_receiver_wf:
  assumes "list_all entry_wf m" and "[] \<notin> set sh" and "sh \<noteq> []"
  shows "list_all entry_wf (assign_receiver sh m i)"
proof (cases "map_get m (sh ! i)")
  case None
  then show ?thesis using assms(1) by (simp add: assign_receiver_def Let_def)
next
  case (Some p)
  have "(i + 1) mod length sh < length sh"
    using assms(3) by simp
  then have r: "sh ! ((i + 1) mod length sh) \<noteq> []"
    using assms(2) by (metis nth_mem)
  have "entry_wf (sh ! i, p)"
    using map_get_SomeD [OF Some] assms(1) by (auto simp: list_all_iff)
  then have "entry_wf (sh ! i, p\<lparr>assignmentToken := Some (sh ! ((i + 1) mod length sh))\<rparr>)"
    using r by (simp add: entry_wf_def)
  then show ?thesis
    using Some assms(1) by (simp add: assign_receiver_def Let_def list_all_map_set)
qed

lemma foldl_assign_wf:
  "list_all entry_wf m \<Longrightarrow> [] \<notin> set sh \<Longrightarrow> sh \<noteq> [] \<Longrightarrow>
   list_all entry_wf (foldl (assign_receiver sh) m is)"
  by (induction "is" arbitrary: m) (simp_all add: assign_receiver_wf)

lemma wf_shuffled:
  assumes wf: "registry_wf st" and two: "2 \<le> length (participants st)" and date: "date \<noteq> []"
  shows "registry_wf (shuffled st r date)"
proof -
  define sh where "sh = fisher_yates r (length (participants st) - 1) (map fst (participants st))"
  have ok: "registry_ok st" using wf by (simp add: registry_wf_def)
  have ms: "mset sh = mset (map fst (participants st))"
    unfolding sh_def using two by (intro mset_fisher_yates) simp
  have keys: "[] \<notin> set (map fst (participants st))"
  proof
    assume "[] \<in> set (map fst (participants st))"
    then obtain p where m: "([], p) \<in> set (participants st)" by auto
    have "token p = []"
      using m wf by (auto simp: registry_wf_def registry_ok_def list_all_iff)
    moreover have "token p \<noteq> []"
      using m wf by (auto simp: registry_wf_def entry_wf_def list_all_iff)
    ultimately show False by simp
  qed
  have ne: "[] \<notin> set sh"
    using mset_eq_setD [OF ms] keys by simp
  have "length sh = length (participants st)"
    using mset_eq_length [OF ms] by simp
  then have nonempty: "sh \<noteq> []"
    using two by auto
  have p: "participants (shuffled st r date) =
      foldl (assign_receiver sh) (participants st) [0..<length sh]"
    by (simp add: shuffled_def Let_def sh_def)
  have "list_all entry_wf (participants (shuffled st r date))"
    using wf foldl_assign_wf [OF _ ne nonempty] by (simp add: p registry_wf_def)
  moreover have "registry_ok (shuffled st r date)"
    using ok foldl_assign_keys [of sh "participants st" "[0..<length sh]"]
      foldl_assign_tokens [of "participants st" sh "[0..<length sh]"]
    by (simp add: registry_ok_def p)
  moreover have "lastShuffledAt (shuffled st r date) \<noteq> Some []"
    using date by (simp add: shuffled_def Let_def)
  ultimately show ?thesis
    by (simp add: registry_wf_def)
qed

lemma wf_shuffle:
  assumes "registry_wf st" and "env_ok e"
    and run: "shuffle_POST config st disk req e = (resp, st', disk')"
  shows "registry_wf st'"
proof (cases "status resp = 200")
  case True
  have "now e \<noteq> []" using assms(2) by (simp add: env_ok_def)
  then show ?thesis
    using shuffle_success_cases [OF run True] wf_shuffled [OF assms(1)] by simp
next
  case False
  then show ?thesis
    using shuffle_result_cases [OF run] assms(1) wf_rollback by auto
qed

lemma reachable_wf: "reachable st \<Longrightarrow> registry_wf st"
proof (induction rule: reachable.induct)
  case start
  show ?case by (rule wf_initial)
next
  case (load disk date st)
  then show ?case by (rule wf_load)
next
  case (register st e disk req resp st' disk')
  then show ?case using wf_register by blast
next
  case (shuffle st e config disk req resp st' disk')
  then show ?case using wf_shuffle by blast
next
  case (reopen st e config disk req resp st' disk')
  then show ?case using wf_reopen by blast
qed

subsection \<open>Loading what was persisted\<close>

lemma sanitize_json_of_participant:
  assumes "pp_token pp \<noteq> []" and "pp_name pp \<noteq> []" and "pp_registeredAt pp \<noteq> []"
    and "pp_assignmentToken pp \<noteq> Some []"
  shows "sanitize_participant date (json_of_participant pp) =
           Inr (Some (pp\<lparr>pp_ipAddress := stored_ip (pp_ipAddress pp)\<rparr>))"
proof -
  have g: "get_prop (json_of_participant pp) ''token'' = Some (JStr (pp_token pp))"
    "get_prop (json_of_participant pp) ''name'' = Some (JStr (pp_name pp))"
    "get_prop (json_of_participant pp) ''assignmentToken'' =
       Some (json_of_nullable (pp_assignmentToken pp))"
    "get_prop (json_of_participant pp) ''registeredAt'' = Some (JStr (pp_registeredAt pp))"
    "get_prop (json_of_participant pp) ''ipAddress'' = Some (json_of_nullable (pp_ipAddress pp))"
    by (simp_all add: json_of_participant_def)
  have a: "(case json_of_nullable (pp_assignmentToken pp) of
              JStr s \<Rightarrow> if s \<noteq> [] then Some s else None | _ \<Rightarrow> None) = pp_assignmentToken pp"
    using assms(4) by (cases "pp_assignmentToken pp") (simp_all add: json_of_nullable_def)
  have i: "(case json_of_nullable (pp_ipAddress pp) of
              JStr s \<Rightarrow> if trim s \<noteq> [] then Some (take 128 (trim s)) else None
            | _ \<Rightarrow> None) = stored_ip (pp_ipAddress pp)"
    by (cases "pp_ipAddress pp") (simp_all add: json_of_nullable_def stored_ip_def)
  have "sanitize_participant date (json_of_participant pp) =
      Inr (Some \<lparr>pp_token = pp_token pp, pp_name = pp_name pp,
             pp_assignmentToken = pp_assignmentToken pp,
             pp_registeredAt = pp_registeredAt pp,
             pp_ipAddress = stored_ip (pp_ipAddress pp)\<rparr>)"
    using sanitize_participant_texts [OF property_text_string [OF g(1)]
        property_text_string [OF g(2)], of date] assms(1,2,3)
    by (simp add: g a i)
  also have "\<lparr>pp_token = pp_token pp, pp_name = pp_name pp,
             pp_assignmentToken = pp_assignmentToken pp,
             pp_registeredAt = pp_registeredAt pp,
             pp_ipAddress = stored_ip (pp_ipAddress pp)\<rparr> =
      pp\<lparr>pp_ipAddress := stored_ip (pp_ipAddress pp)\<rparr>"
    by (cases pp) simp
  finally show ?thesis .
qed

lemma sanitize_json_of_state:
  assumes "registry_wf st"
  shows "\<exists>s. sanitize date (json_of_state (captureState st))
              (map json_of_participant (ps_participants (captureState st))) = Inr s
     \<and> restoreState s =
         st\<lparr>participants :=
              map (\<lambda>(k, p). (k, p\<lparr>ipAddress := stored_ip (ipAddress p)\<rparr>)) (participants st)\<rparr>"
proof -
  let ?h = "\<lambda>p. p\<lparr>ipAddress := stored_ip (ipAddress p)\<rparr>"
  let ?cap = "\<lambda>p. \<lparr>pp_token = token p, pp_name = name p,
                   pp_assignmentToken = assignmentToken p,
                   pp_registeredAt = registeredAt p,
                   pp_ipAddress = ipAddress p\<rparr>"
  let ?g = "\<lambda>pp. pp\<lparr>pp_ipAddress := stored_ip (pp_ipAddress pp)\<rparr>"
  let ?m2 = "map (\<lambda>(k, p). (k, ?h p)) (participants st)"
  let ?records = "map json_of_participant (ps_participants (captureState st))"
  have ok: "registry_ok st" and each: "list_all entry_wf (participants st)"
    and ls: "lastShuffledAt st \<noteq> Some []"
    using assms by (simp_all add: registry_wf_def)
  have "\<forall>pp \<in> set (ps_participants (captureState st)).
      sanitize_participant date (json_of_participant pp) = Inr (Some (?g pp))"
  proof
    fix pp assume "pp \<in> set (ps_participants (captureState st))"
    then obtain k p where kp: "(k, p) \<in> set (participants st)" and pp: "pp = ?cap p"
      by (auto simp: captureState_def)
    have "entry_wf (k, p)" using each kp by (auto simp: list_all_iff)
    then show "sanitize_participant date (json_of_participant pp) = Inr (Some (?g pp))"
      by (intro sanitize_json_of_participant) (simp_all add: pp entry_wf_def)
  qed
  then have "collect_results (map (\<lambda>pp. sanitize_participant date (json_of_participant pp))
                (ps_participants (captureState st))) =
             Inr (map (\<lambda>pp. Some (?g pp)) (ps_participants (captureState st)))"
    by (rule collect_results_all)
  then have c: "collect_results (map (sanitize_participant date) ?records) =
             Inr (map (\<lambda>pp. Some (?g pp)) (ps_participants (captureState st)))"
    by (simp add: comp_def)
  then obtain s where s: "sanitize date (json_of_state (captureState st)) ?records = Inr s"
    by (simp add: sanitize_def)
  have "ps_participants s = map ?g (ps_participants (captureState st))"
    using s c by (auto simp: sanitize_def map_filter_Some)
  also have "\<dots> = map ?cap (map snd ?m2)"
    by (simp add: captureState_def comp_def split_def)
  finally have parts: "ps_participants s = map ?cap (map snd ?m2)" .
  have "distinct (map fst ?m2)" "list_all (\<lambda>(k, p). token p = k) ?m2"
    using ok by (simp_all add: registry_ok_def comp_def split_def list_all_iff)
  then have "foldl restore_entry [] (map ?cap (map snd ?m2)) = [] @ ?m2"
    by (intro foldl_restore_entry) simp_all
  then have p: "participants (restoreState s) = ?m2"
    by (simp add: restoreState_def parts)
  note f = sanitize_flags [OF s]
  have flags: "assignmentsReady (restoreState s) = assignmentsReady st"
    "registrationOpen (restoreState s) = registrationOpen st"
    by (simp_all add: restoreState_def f json_of_state_def captureState_def)
  have "lastShuffledAt (restoreState s) = lastShuffledAt st"
    using ls
    by (cases "lastShuffledAt st")
       (simp_all add: restoreState_def f json_of_state_def captureState_def
          json_of_nullable_def)
  then have "restoreState s = st\<lparr>participants := ?m2\<rparr>"
    using p flags by (cases st) simp
  then show ?thesis
    using s by blast
qed

lemma load_after_persist:
  assumes "registry_wf st"
    and "disk' PARTICIPANTS_FILE = Some (Parsed (json_of_state (captureState st)))"
  shows "loadPersistedState disk' date st0 =
           Inr (st\<lparr>participants :=
                  map (\<lambda>(k, p). (k, p\<lparr>ipAddress := stored_ip (ipAddress p)\<rparr>))
                      (participants st)\<rparr>)"
proof -
  from sanitize_json_of_state [OF assms(1), of date] obtain s where
    "sanitize date (json_of_state (captureState st))
       (map json_of_participant (ps_participants (captureState st))) = Inr s"
    "restoreState s =
         st\<lparr>participants :=
              map (\<lambda>(k, p). (k, p\<lparr>ipAddress := stored_ip (ipAddress p)\<rparr>)) (participants st)\<rparr>"
    by blast
  then show ?thesis
    using assms(2) by (simp add: loadPersistedState_def json_of_state_def)
qed

subsection \<open>The examples, evaluated\<close>

lemma example_facts:
  "authorizeAdmin example_config admin_request"
  "registry_ok two_registered"
  "registry_ok ready_and_open"
  "io failing_env \<noteq> IoOk"
  "io example_env = IoOk"
  "requested_name (JObj [(''name'', JStr '' Carol '')]) = Inr ''Carol''"
  by (simp_all add: authorizeAdmin_def extractPasswordFromRequest_def example_config_def
        admin_request_def trim_def js_whitespace_def registry_ok_def two_registered_def
        ready_and_open_def alice_def bob_def failing_env_def example_env_def requested_name_def)

lemma example_env_ok: "env_ok example_env"
  by (simp add: env_ok_def example_env_def randomToken_def)

lemma example_register:
  "registrationOpen two_registered" "registrationOpen ready_and_open"
  "body example_request = Some (JObj [(''name'', JStr '' Carol '')])"
  "createUniqueToken (participants two_registered) (uuids example_env) = Some ''a1b2''"
  "createUniqueToken (participants ready_and_open) (uuids example_env) = Some ''a1b2''"
  "createUniqueToken (participants two_registered) (uuids failing_env) = Some ''a1b2''"
  "registered two_registered ''a1b2'' ''Carol'' (now example_env) (ip example_request)
     = three_registered"
  "registered ready_and_open ''a1b2'' ''Carol'' (now example_env) (ip example_request)
     = three_registered"
  by (simp_all add: two_registered_def ready_and_open_def example_request_def example_env_def
        failing_env_def randomToken_def map_has_def registered_def three_registered_def
        clear_assignments_def alice_def bob_def carol_def)

lemma example_register_two:
  "register_POST two_registered empty_disk example_request example_env =
     Some (Inr (Response 201
             (JsonBody (JObj [(''token'', JStr ''a1b2''), (''name'', JStr ''Carol''),
                              (''assignmentsReady'', JBool False)]))),
           three_registered,
           empty_disk(tempPath (temp_uuid example_env) := None,
                      PARTICIPANTS_FILE \<mapsto>
                        Parsed (json_of_state (captureState three_registered))))"
  using register_POST_passes [OF example_register(1) example_register(3) example_facts(6) _ _
      example_register(4), of empty_disk]
  by (simp add: example_facts example_register(7))

lemma example_register_stale:
  "register_POST ready_and_open empty_disk example_request example_env =
     Some (Inr (Response 201
             (JsonBody (JObj [(''token'', JStr ''a1b2''), (''name'', JStr ''Carol''),
                              (''assignmentsReady'', JBool False)]))),
           three_registered,
           empty_disk(tempPath (temp_uuid example_env) := None,
                      PARTICIPANTS_FILE \<mapsto>
                        Parsed (json_of_state (captureState three_registered))))"
  using register_POST_passes [OF example_register(2) example_register(3) example_facts(6) _ _
      example_register(5), of empty_disk]
  by (simp add: example_facts example_register(8))

lemma reopened_ready_and_open: "reopened ready_and_open = two_registered"
  by (simp add: reopened_def ready_and_open_def two_registered_def clear_assignments_def
        alice_def bob_def)

lemma reopened_two_registered: "reopened two_registered = two_registered"
  by (simp add: reopened_def two_registered_def clear_assignments_def alice_def bob_def)

lemma example_shuffle:
  "shuffled three_registered (rnd example_env) (now example_env) = three_shuffled"
  by (simp add: shuffled_def three_registered_def example_env_def three_shuffled_def Let_def
        swap_def assign_receiver_def map_get_def alice_def bob_def carol_def upt_rec)

lemma example_follow:
  "map (\<lambda>k. follow (participants three_shuffled) k ''a1b2'') [0..<3] =
     [Some ''a1b2'', Some ''a11ce'', Some ''b0b'']"
  by (simp add: three_shuffled_def giftee_def map_get_def alice_def bob_def carol_def upt_rec
       eval_nat_numeral)


lemma example_shuffle_run:
  "\<exists>resp disk'.
     shuffle_POST example_config three_registered empty_disk admin_request example_env =
       (resp, three_shuffled, disk')"
proof -
  have "2 \<le> length (participants three_registered)"
    by (simp add: three_registered_def)
  from shuffle_POST_passes [OF example_facts(1) this, of empty_disk example_env]
  show ?thesis
    by (simp add: example_facts(5) example_shuffle)
qed

lemma example_load:
  "loadPersistedState committed_disk ''2025-12-01T10:00:00.000Z'' initial_registry =
     Inr two_registered"
  by (simp add: loadPersistedState_def committed_disk_def PARTICIPANTS_FILE_def
        json_of_state_def captureState_def two_registered_def alice_def bob_def
        json_of_participant_def json_of_nullable_def sanitize_def List.map_filter_simps
        sanitize_participant_def property_text_def Let_def trim_def js_whitespace_def
        restoreState_def restore_entry_def)

lemma reachable_three_shuffled: "reachable three_shuffled"
proof -
  have "reachable two_registered"
    using example_load by (rule reachable.load) simp
  then have "reachable three_registered"
    using example_env_ok example_register_two by (rule reachable.register)
  then show ?thesis
    using example_env_ok example_shuffle_run by (blast intro: reachable.shuffle)
qed

lemma example_load_stale:
  "loadPersistedState stale_disk ''2025-12-01T10:00:00.000Z'' initial_registry =
     Inr ready_and_open"
  by (simp add: loadPersistedState_def stale_disk_def PARTICIPANTS_FILE_def
        json_of_state_def captureState_def ready_and_open_def alice_def bob_def
        json_of_participant_def json_of_nullable_def sanitize_def List.map_filter_simps
        sanitize_participant_def property_text_def Let_def trim_def js_whitespace_def
        restoreState_def restore_entry_def)

lemma reachable_ready_and_open: "reachable ready_and_open"
  using example_load_stale by (rule reachable.load) simp


text \<open>A value \<^verbatim>\<open>String\<close> cannot convert: the register handler throws, and the
  start-up load fails.\<close>

lemma register_throws_on_unprintable_name:
  "register_POST two_registered empty_disk unprintable_request example_env =
     Some (Inl TypeError, two_registered, empty_disk)"
  by (simp add: register_POST_def unprintable_request_def requested_name_def two_registered_def)

lemma load_throws_on_unprintable_token:
  "loadPersistedState (empty_disk(PARTICIPANTS_FILE \<mapsto> Parsed unprintable_file))
      ''2025-12-01T10:00:00.000Z'' initial_registry = Inl (Conversion TypeError)"
  by (simp add: loadPersistedState_def unprintable_file_def sanitize_def
        sanitize_participant_def property_text_def)


section \<open>The claims\<close>

text \<open>
  Claim C1. Let a shuffle succeed (status 200) on a registry of \<open>n\<close> participants. Then
  \<open>n \<ge> 2\<close>; the entries are those of before, in their order, changed in nothing
  but the assignment; every participant has an assignment, and it is not the participant's
  own token; from every participant \<open>t\<close>, the tokens reached by following the assignment
  \<open>0, 1, \<dots>, n - 1\<close> times are pairwise different and are all the tokens of the
  registry, and following it \<open>n\<close> times leads back to \<open>t\<close>; the same registry has
  \<open>assignmentsReady\<close> true, \<open>lastShuffledAt\<close> the current time and
  \<open>registrationOpen\<close> false. This holds for every choice the random source makes.
\<close>

theorem shuffle_single_cycle:
  assumes "registry_ok st"
    and "shuffle_POST config st disk req e = (resp, st', disk')" and "status resp = 200"
  shows "2 \<le> length (participants st')
     \<and> map fst (participants st') = map fst (participants st)
     \<and> clear_assignments (participants st') = clear_assignments (participants st)
     \<and> list_all (\<lambda>(k, p). assignmentToken p \<noteq> None \<and> assignmentToken p \<noteq> Some (token p))
           (participants st')
     \<and> (\<forall>t \<in> set (map fst (participants st')).
           distinct (map (\<lambda>k. follow (participants st') k t) [0..<length (participants st')])
         \<and> set (map (\<lambda>k. follow (participants st') k t) [0..<length (participants st')])
             = Some ` set (map fst (participants st'))
         \<and> follow (participants st') (length (participants st')) t = Some t)
     \<and> assignmentsReady st' \<and> lastShuffledAt st' = Some (now e) \<and> \<not> registrationOpen st'"
proof -
  from shuffle_success_cases [OF assms(2,3)]
  have two: "2 \<le> length (participants st)" and st': "st' = shuffled st (rnd e) (now e)"
    by simp_all
  note cyc = shuffled_cycle [OF assms(1) two, of "rnd e" "now e", folded st']
  have "length (participants st') = length (participants st)"
    using cyc(1) by (metis length_map)
  then have "2 \<le> length (participants st')"
    using two by simp
  moreover have "assignmentsReady st' \<and> lastShuffledAt st' = Some (now e)
      \<and> \<not> registrationOpen st'"
    by (simp add: st' shuffled_def Let_def)
  ultimately show ?thesis
    using cyc by blast
qed

text \<open>Three participants, and a random source that always draws 0.\<close>

theorem shuffle_single_cycle_witness:
  "registry_ok three_registered
   \<and> (\<exists>resp disk'.
         shuffle_POST example_config three_registered empty_disk admin_request example_env =
           (resp, three_shuffled, disk')
         \<and> status resp = 200)
   \<and> map (\<lambda>(k, p). (k, assignmentToken p)) (participants three_shuffled) =
         [(''a11ce'', Some ''b0b''), (''b0b'', Some ''a1b2''), (''a1b2'', Some ''a11ce'')]
   \<and> map (\<lambda>k. follow (participants three_shuffled) k ''a1b2'') [0..<3] =
         [Some ''a1b2'', Some ''a11ce'', Some ''b0b'']
   \<and> follow (participants three_shuffled) (length (participants three_shuffled)) ''a1b2''
         = Some ''a1b2''
   \<and> assignmentsReady three_shuffled
   \<and> lastShuffledAt three_shuffled = Some (now example_env)
   \<and> \<not> registrationOpen three_shuffled"
proof -
  have ok: "registry_ok three_registered"
    by (simp add: registry_ok_def three_registered_def alice_def bob_def carol_def)
  have l: "2 \<le> length (participants three_registered)"
    by (simp add: three_registered_def)
  obtain resp disk' where
    run: "shuffle_POST example_config three_registered empty_disk admin_request example_env =
           (resp, three_shuffled, disk')"
    and s: "status resp = 200"
    using shuffle_POST_passes [OF example_facts(1) l, of empty_disk example_env]
    by (simp add: example_facts(5) example_shuffle)
  have key: "''a1b2'' \<in> set (map fst (participants three_shuffled))"
    by (simp add: three_shuffled_def)
  note c = shuffle_single_cycle [OF ok run s]
  have "follow (participants three_shuffled) (length (participants three_shuffled)) ''a1b2''
      = Some ''a1b2''"
    using c key by blast
  moreover have "assignmentsReady three_shuffled
      \<and> lastShuffledAt three_shuffled = Some (now example_env)
      \<and> \<not> registrationOpen three_shuffled"
    using c by blast
  moreover have "map (\<lambda>(k, p). (k, assignmentToken p)) (participants three_shuffled) =
         [(''a11ce'', Some ''b0b''), (''b0b'', Some ''a1b2''), (''a1b2'', Some ''a11ce'')]"
    by (simp add: three_shuffled_def alice_def bob_def carol_def)
  moreover have "\<exists>resp disk'.
         shuffle_POST example_config three_registered empty_disk admin_request example_env =
           (resp, three_shuffled, disk')
         \<and> status resp = 200"
    using run s by blast
  ultimately show ?thesis
    using ok example_follow by simp
qed

text \<open>
  Claim C2. When \<open>assignmentsReady\<close> holds and a registration succeeds (status 201), the
  registry the route leaves has \<open>assignmentsReady\<close> false and no assignment on any
  participant, and holds an entry under a token that was not a key before. The route
  returns this one registry: the insertion and the clearing are one step of the model (in
  the source, one run of statements without an \<^verbatim>\<open>await\<close>). The file committed by
  the same request is the snapshot of that registry.
\<close>

theorem register_invalidates_assignments:
  assumes "assignmentsReady st"
    and "register_POST st disk req e = Some (Inr resp, st', disk')" and "status resp = 201"
  shows "\<not> assignmentsReady st'
     \<and> list_all (\<lambda>(k, p). assignmentToken p = None) (participants st')
     \<and> (\<exists>tok. \<not> map_has (participants st) tok \<and> map_has (participants st') tok)
     \<and> disk' PARTICIPANTS_FILE = Some (Parsed (json_of_state (captureState st')))"
proof -
  from assms(2,3) obtain tok b nm where
    t: "createUniqueToken (participants st) (uuids e) = Some tok"
    and st': "st' = registered st tok nm (now e) (ip req)"
    and d: "disk' = disk(tempPath (temp_uuid e) := None,
                  PARTICIPANTS_FILE \<mapsto> Parsed (json_of_state (captureState st')))"
    by (rule register_success_cases)
  have "\<not> map_has (participants st) tok"
    using createUniqueToken_fresh [OF t] by simp
  moreover have "map_has (participants st') tok"
    using registered_participants [OF t] st'
    by (simp add: map_has_def)
  moreover have "list_all (\<lambda>(k, p). assignmentToken p = None) (participants st')"
    using st' clear_assignments_all_none by (simp add: registered_def)
  moreover have "\<not> assignmentsReady st'"
    using st' by (simp add: registered_def)
  moreover have "disk' PARTICIPANTS_FILE = Some (Parsed (json_of_state (captureState st')))"
    using d by simp
  ultimately show ?thesis by blast
qed

text \<open>A registry with assignments in place and registration open, which the start-up
  load yields from a file that says so: registering "Carol" clears both assignments.\<close>

theorem register_invalidates_assignments_witness:
  "reachable ready_and_open \<and> assignmentsReady ready_and_open
   \<and> map (assignmentToken \<circ> snd) (participants ready_and_open) = [Some ''b0b'', Some ''a11ce'']
   \<and> (\<exists>resp disk'.
         register_POST ready_and_open empty_disk example_request example_env =
           Some (Inr resp, three_registered, disk')
         \<and> status resp = 201
         \<and> \<not> assignmentsReady three_registered
         \<and> map (assignmentToken \<circ> snd) (participants three_registered) = [None, None, None]
         \<and> disk' PARTICIPANTS_FILE =
              Some (Parsed (json_of_state (captureState three_registered))))"
proof -
  have r: "assignmentsReady ready_and_open" by (simp add: ready_and_open_def)
  have "\<not> assignmentsReady three_registered"
    using register_invalidates_assignments [OF r example_register_stale] by simp
  moreover have "map (assignmentToken \<circ> snd) (participants ready_and_open)
      = [Some ''b0b'', Some ''a11ce'']"
    "map (assignmentToken \<circ> snd) (participants three_registered) = [None, None, None]"
    by (simp_all add: ready_and_open_def three_registered_def alice_def bob_def carol_def)
  ultimately show ?thesis
    using r reachable_ready_and_open example_register_stale tempPath_not_canonical by simp
qed

text \<open>
  Claim C3. Let the write fail (\<^verbatim>\<open>writeFile\<close> or \<^verbatim>\<open>rename\<close>). Then each mutating
  route that reaches \<^verbatim>\<open>persistState\<close> (a registration that passed its checks and drew
  a token, an authorised shuffle of two or more participants, an authorised reopen)
  answers with status 500 (the persistence error of the specification), returns the
  registry it started from, and leaves the canonical file with the content it had.
\<close>

theorem persist_failure_rolls_back:
  assumes "registry_ok st" and "io e \<noteq> IoOk"
  shows "(registrationOpen st \<and> body req = Some b \<and> requested_name b = Inr nm
            \<and> nm \<noteq> [] \<and> length nm \<le> 64
            \<and> createUniqueToken (participants st) (uuids e) = Some tok
          \<longrightarrow> (\<exists>disk'. register_POST st disk req e =
                   Some (Inr (Response 500 (TextBody ''Unable to save registration. Try again.'')),
                         st, disk')
                 \<and> disk' PARTICIPANTS_FILE = disk PARTICIPANTS_FILE))
     \<and> (authorizeAdmin config req \<and> 2 \<le> length (participants st)
          \<longrightarrow> (\<exists>disk'. shuffle_POST config st disk req e =
                   (Response 500
                      (JsonBody (JObj [(''success'', JBool False),
                                       (''message'', JStr ''Unable to save shuffle results.'')])),
                    st, disk')
                 \<and> disk' PARTICIPANTS_FILE = disk PARTICIPANTS_FILE))
     \<and> (authorizeAdmin config req
          \<longrightarrow> (\<exists>disk'. reopen_POST config st disk req e =
                   (Response 500
                      (JsonBody (JObj [(''success'', JBool False),
                                       (''message'', JStr ''Unable to reopen registration.'')])),
                    st, disk')
                 \<and> disk' PARTICIPANTS_FILE = disk PARTICIPANTS_FILE))"
proof -
  note undo = restore_capture [OF assms(1)]
  have kept: "(disk(tempPath (temp_uuid e) := None)) PARTICIPANTS_FILE = disk PARTICIPANTS_FILE"
    using tempPath_not_canonical [of "temp_uuid e"] by simp
  have reg: "\<exists>disk'. register_POST st disk req e =
                   Some (Inr (Response 500 (TextBody ''Unable to save registration. Try again.'')),
                         st, disk')
                 \<and> disk' PARTICIPANTS_FILE = disk PARTICIPANTS_FILE"
    if "registrationOpen st" "body req = Some b" "requested_name b = Inr nm"
      "nm \<noteq> []" "length nm \<le> 64"
      "createUniqueToken (participants st) (uuids e) = Some tok"
    using register_POST_passes [OF that, of disk] assms(2) undo kept by simp
  have shf: "\<exists>disk'. shuffle_POST config st disk req e =
                   (Response 500
                      (JsonBody (JObj [(''success'', JBool False),
                                       (''message'', JStr ''Unable to save shuffle results.'')])),
                    st, disk')
                 \<and> disk' PARTICIPANTS_FILE = disk PARTICIPANTS_FILE"
    if "authorizeAdmin config req" "2 \<le> length (participants st)"
    using shuffle_POST_passes [OF that, of disk e] assms(2) undo kept by simp
  have reo: "\<exists>disk'. reopen_POST config st disk req e =
                   (Response 500
                      (JsonBody (JObj [(''success'', JBool False),
                                       (''message'', JStr ''Unable to reopen registration.'')])),
                    st, disk')
                 \<and> disk' PARTICIPANTS_FILE = disk PARTICIPANTS_FILE"
    if "authorizeAdmin config req"
    using reopen_POST_passes [OF that, of st disk e] assms(2) undo kept by simp
  show ?thesis
    using reg shf reo by blast
qed

text \<open>Two participants in memory and on disk, and a \<^verbatim>\<open>rename\<close> that fails.\<close>

theorem persist_failure_rolls_back_witness:
  "(\<exists>disk'. register_POST two_registered committed_disk example_request failing_env =
              Some (Inr (Response 500 (TextBody ''Unable to save registration. Try again.'')),
                    two_registered, disk')
            \<and> disk' PARTICIPANTS_FILE =
                 Some (Parsed (json_of_state (captureState two_registered))))
   \<and> (\<exists>disk'. shuffle_POST example_config two_registered committed_disk admin_request
                failing_env =
              (Response 500
                 (JsonBody (JObj [(''success'', JBool False),
                                  (''message'', JStr ''Unable to save shuffle results.'')])),
               two_registered, disk')
            \<and> disk' PARTICIPANTS_FILE =
                 Some (Parsed (json_of_state (captureState two_registered))))
   \<and> (\<exists>disk'. reopen_POST example_config two_registered committed_disk admin_request
                failing_env =
              (Response 500
                 (JsonBody (JObj [(''success'', JBool False),
                                  (''message'', JStr ''Unable to reopen registration.'')])),
               two_registered, disk')
            \<and> disk' PARTICIPANTS_FILE =
                 Some (Parsed (json_of_state (captureState two_registered))))"
proof -
  have l: "2 \<le> length (participants two_registered)"
    by (simp add: two_registered_def)
  have c: "committed_disk PARTICIPANTS_FILE =
      Some (Parsed (json_of_state (captureState two_registered)))"
    by (simp add: committed_disk_def)
  show ?thesis
    using persist_failure_rolls_back [OF example_facts(2) example_facts(4),
        where req = example_request and b = "JObj [(''name'', JStr '' Carol '')]" and nm = "''Carol''"
          and tok = "''a1b2''" and disk = committed_disk and config = example_config]
      persist_failure_rolls_back [OF example_facts(2) example_facts(4),
        where req = admin_request and disk = committed_disk and config = example_config]
      example_register example_facts l c
    by simp
qed

text \<open>
  Claim C4. Take a registry the process can hold (\<open>reachable\<close>), persist it
  successfully, and load the disk that results, at any later time and from any registry:
  the load succeeds, and the loaded registry has the same participants in the same order
  with the same token, name, assignment and registration time, and the same three flags.
\<close>

theorem persist_load_round_trip:
  assumes "reachable st" and "persistState st uuid outcome disk = (Inr (), disk')"
  shows "\<exists>st'. loadPersistedState disk' date st0 = Inr st' \<and> observable st' = observable st"
proof -
  have wf: "registry_wf st"
    using assms(1) by (rule reachable_wf)
  have "outcome = IoOk"
    using assms(2) by (cases outcome) (simp_all add: persistState_def Let_def)
  then have d: "disk' PARTICIPANTS_FILE = Some (Parsed (json_of_state (captureState st)))"
    using assms(2) persistState_ok [of st uuid disk "Inr ()" disk'] by simp
  show ?thesis
    using load_after_persist [where st = st and disk' = disk' and date = date and ?st0.0 = st0]
      wf d
    by (simp add: observable_def comp_def split_def)
qed

text \<open>The registry after a load, a registration and a shuffle.\<close>

theorem persist_load_round_trip_witness:
  "reachable three_shuffled
   \<and> (\<exists>disk' st'.
         persistState three_shuffled ''7f'' IoOk empty_disk = (Inr (), disk')
         \<and> loadPersistedState disk' ''2026-01-05T08:00:00.000Z'' initial_registry = Inr st'
         \<and> observable st' = observable three_shuffled)"
proof -
  obtain disk' where p: "persistState three_shuffled ''7f'' IoOk empty_disk = (Inr (), disk')"
    by (simp add: persistState_eq)
  from persist_load_round_trip [OF reachable_three_shuffled p]
  show ?thesis
    using reachable_three_shuffled p by blast
qed

text \<open>
  Claim C5. With no participant or a single one, an authorised shuffle request is
  answered with status 400 and the message of the error \<^verbatim>\<open>shuffleAssignments\<close> throws
  (the state error of the specification); the registry and the disk are returned as they
  were, whatever the environment would have done with a write, so no write is attempted.
\<close>

theorem shuffle_needs_two_participants:
  assumes "authorizeAdmin config req" and "length (participants st) < 2"
  shows "shuffle_POST config st disk req e =
           (Response 400
              (JsonBody (JObj [(''success'', JBool False),
                               (''message'',
                                JStr ''At least two participants are required to shuffle.'')])),
            st, disk)"
  using assms by (rule shuffle_POST_too_few)

text \<open>The scenario of the specification: only "Solo" is registered; the shuffle
  fails, registration stays open and no assignment exists.\<close>

theorem shuffle_needs_two_participants_witness:
  "shuffle_POST example_config solo_registered empty_disk admin_request failing_env =
     (Response 400
        (JsonBody (JObj [(''success'', JBool False),
                         (''message'',
                          JStr ''At least two participants are required to shuffle.'')])),
      solo_registered, empty_disk)
   \<and> registrationOpen solo_registered
   \<and> map (assignmentToken \<circ> snd) (participants solo_registered) = [None]"
proof -
  have "length (participants solo_registered) < 2"
    by (simp add: solo_registered_def)
  from shuffle_needs_two_participants [OF example_facts(1) this]
  show ?thesis by (simp add: solo_registered_def)
qed

text \<open>
  Claim C6 says that a registration fails exactly when registration is closed or the name
  is empty or too long, and succeeds otherwise. Against it: registration is open, the name
  is "Carol", and the write fails; the route answers 500 and no participant is added.
\<close>

theorem register_write_failure_counterexample:
  "registrationOpen two_registered
   \<and> body example_request = Some (JObj [(''name'', JStr '' Carol '')])
   \<and> requested_name (JObj [(''name'', JStr '' Carol '')]) = Inr ''Carol''
   \<and> register_POST two_registered empty_disk example_request failing_env =
        Some (Inr (Response 500 (TextBody ''Unable to save registration. Try again.'')),
              two_registered, empty_disk)"
proof -
  have "empty_disk(tempPath (temp_uuid failing_env) := None) = empty_disk"
    by (simp add: empty_disk_def)
  then show ?thesis
    using register_POST_passes [OF example_register(1) example_register(3) example_facts(6) _ _
        example_register(6), of empty_disk]
      restore_capture [OF example_facts(2)] example_facts example_register
    by simp
qed

text \<open>
  Claim C6, amended. The checks of a registration, in the order the route makes them:
  registration closed gives status 403 (the state error), whatever the name is; otherwise
  a body that is not JSON gives status 400, and so does, the name being the trimmed text
  that \<^verbatim>\<open>String\<close> gives of the body's \<^verbatim>\<open>name\<close> (the empty text when there is
  none), a name that is empty or longer than 64 (the validation error); each of these
  returns the registry and the disk untouched. Otherwise, when one of the draws of the
  token generator is not yet a key, the route draws a token that is not a key, and it
  answers 201 with that token and holds it in the registry if the write succeeds, and
  answers 500 with the registry it started from if the write fails.
\<close>

theorem register_outcomes:
  "(\<not> registrationOpen st \<longrightarrow>
      register_POST st disk req e =
        Some (Inr (Response 403
                     (TextBody ''Registration is closed. Please contact the organizer.'')),
              st, disk))
   \<and> (registrationOpen st \<and> body req = None \<longrightarrow>
      register_POST st disk req e =
        Some (Inr (Response 400 (TextBody ''Invalid JSON'')), st, disk))
   \<and> (registrationOpen st \<and> body req = Some b \<and> requested_name b = Inr [] \<longrightarrow>
      register_POST st disk req e =
        Some (Inr (Response 400 (TextBody ''Name is required'')), st, disk))
   \<and> (registrationOpen st \<and> body req = Some b \<and> requested_name b = Inr nm
        \<and> 64 < length nm \<longrightarrow>
      register_POST st disk req e =
        Some (Inr (Response 400 (TextBody ''Name must be 64 characters or fewer'')), st, disk))
   \<and> (registrationOpen st \<and> body req = Some b \<and> requested_name b = Inr nm \<and> nm \<noteq> []
        \<and> length nm \<le> 64
        \<and> (\<exists>u \<in> set (uuids e). \<not> map_has (participants st) (randomToken u)) \<longrightarrow>
      (\<exists>tok. \<not> map_has (participants st) tok
         \<and> (io e = IoOk \<longrightarrow>
              (\<exists>st' disk'. register_POST st disk req e =
                 Some (Inr (Response 201
                              (JsonBody (JObj [(''token'', JStr tok), (''name'', JStr nm),
                                               (''assignmentsReady'', JBool False)]))),
                       st', disk')
               \<and> map_has (participants st') tok))
         \<and> (io e \<noteq> IoOk \<and> registry_ok st \<longrightarrow>
              (\<exists>disk'. register_POST st disk req e =
                 Some (Inr (Response 500
                              (TextBody ''Unable to save registration. Try again.'')),
                       st, disk')))))"
proof -
  have pass: "\<exists>tok. \<not> map_has (participants st) tok
         \<and> (io e = IoOk \<longrightarrow>
              (\<exists>st' disk'. register_POST st disk req e =
                 Some (Inr (Response 201
                              (JsonBody (JObj [(''token'', JStr tok), (''name'', JStr nm),
                                               (''assignmentsReady'', JBool False)]))),
                       st', disk')
               \<and> map_has (participants st') tok))
         \<and> (io e \<noteq> IoOk \<and> registry_ok st \<longrightarrow>
              (\<exists>disk'. register_POST st disk req e =
                 Some (Inr (Response 500
                              (TextBody ''Unable to save registration. Try again.'')),
                       st, disk')))"
    if h: "registrationOpen st" "body req = Some b" "requested_name b = Inr nm" "nm \<noteq> []"
      "length nm \<le> 64"
      and draw: "\<exists>u \<in> set (uuids e). \<not> map_has (participants st) (randomToken u)"
  proof -
    obtain tok where t: "createUniqueToken (participants st) (uuids e) = Some tok"
      using createUniqueToken_returns [OF draw] by blast
    have fresh: "\<not> map_has (participants st) tok"
      using createUniqueToken_fresh [OF t] by simp
    have new: "map_has (participants (registered st tok nm (now e) (ip req))) tok"
      using registered_participants [OF t] by (simp add: map_has_def)
    note eq = register_POST_passes [OF h t, of disk]
    have "io e = IoOk \<longrightarrow>
              (\<exists>st' disk'. register_POST st disk req e =
                 Some (Inr (Response 201
                              (JsonBody (JObj [(''token'', JStr tok), (''name'', JStr nm),
                                               (''assignmentsReady'', JBool False)]))),
                       st', disk')
               \<and> map_has (participants st') tok)"
      using eq new by simp
    moreover have "io e \<noteq> IoOk \<and> registry_ok st \<longrightarrow>
              (\<exists>disk'. register_POST st disk req e =
                 Some (Inr (Response 500
                              (TextBody ''Unable to save registration. Try again.'')),
                       st, disk'))"
      using eq by (simp add: restore_capture)
    ultimately show ?thesis
      using fresh by blast
  qed
  show ?thesis
    using register_POST_rejects(1) [of st disk req e] register_POST_rejects(2) [of st req disk e]
      register_POST_rejects(3) [of st req b disk e]
      register_POST_rejects(4) [of st req b nm disk e] pass
    by (intro conjI impI) (simp, simp, simp, simp, blast)
qed

text \<open>Registering after a shuffle; registering a blank name; registering "Carol";
  registering the number \<^verbatim>\<open>1e70\<close> as a name.\<close>

theorem register_outcomes_witness:
  "register_POST three_shuffled empty_disk example_request example_env =
     Some (Inr (Response 403
                  (TextBody ''Registration is closed. Please contact the organizer.'')),
           three_shuffled, empty_disk)
   \<and> register_POST two_registered empty_disk closed_request example_env =
       Some (Inr (Response 400 (TextBody ''Name is required'')), two_registered, empty_disk)
   \<and> (\<exists>tok st' disk'.
         register_POST two_registered empty_disk example_request example_env =
           Some (Inr (Response 201
                        (JsonBody (JObj [(''token'', JStr tok), (''name'', JStr ''Carol''),
                                         (''assignmentsReady'', JBool False)]))),
                 st', disk')
         \<and> \<not> map_has (participants two_registered) tok \<and> map_has (participants st') tok)
   \<and> (\<exists>tok st' disk'.
         register_POST two_registered empty_disk numeric_request example_env =
           Some (Inr (Response 201
                        (JsonBody (JObj [(''token'', JStr tok), (''name'', JStr ''1e+70''),
                                         (''assignmentsReady'', JBool False)]))),
                 st', disk')
         \<and> \<not> map_has (participants two_registered) tok \<and> map_has (participants st') tok)"
proof -
  have c: "\<not> registrationOpen three_shuffled"
    by (simp add: three_shuffled_def)
  have b: "body closed_request = Some (JObj [(''name'', JStr ''   '')])"
    "requested_name (JObj [(''name'', JStr ''   '')]) = Inr []"
    "body numeric_request = Some (JObj [(''name'', JNum ''1e+70'' True)])"
    "requested_name (JObj [(''name'', JNum ''1e+70'' True)]) = Inr ''1e+70''"
    by (simp_all add: closed_request_def numeric_request_def requested_name_def trim_def
          js_whitespace_def)
  have d: "\<exists>u \<in> set (uuids example_env).
      \<not> map_has (participants two_registered) (randomToken u)"
    by (simp add: example_env_def two_registered_def map_has_def randomToken_def)
  show ?thesis
    using register_outcomes [where st = three_shuffled and disk = empty_disk
        and req = example_request and e = example_env]
      register_outcomes [where st = two_registered and disk = empty_disk
        and req = closed_request and e = example_env and b = "JObj [(''name'', JStr ''   '')]"]
      register_outcomes [where st = two_registered and disk = empty_disk
        and req = example_request and e = example_env
        and b = "JObj [(''name'', JStr '' Carol '')]" and nm = "''Carol''"]
      register_outcomes [where st = two_registered and disk = empty_disk
        and req = numeric_request and e = example_env
        and b = "JObj [(''name'', JNum ''1e+70'' True)]" and nm = "''1e+70''"]
      c b d example_register(1,3) example_facts(5,6)
    by simp blast
qed




text \<open>
  Claim C8 says that after restoring any persisted state the two flags are never both
  true. Against it: a file with \<^verbatim>\<open>assignmentsReady: true\<close> and no
  \<^verbatim>\<open>registrationOpen\<close> loads into a registry with both flags true, and so does the
  snapshot of that registry when a rollback restores it.
\<close>

theorem restore_open_and_ready_counterexample:
  "loadPersistedState (empty_disk(PARTICIPANTS_FILE \<mapsto> Parsed legacy_file))
      ''2025-12-01T10:00:00.000Z'' initial_registry = Inr open_and_ready
   \<and> restoreState (captureState open_and_ready) = open_and_ready
   \<and> registrationOpen open_and_ready \<and> assignmentsReady open_and_ready"
  by (simp add: loadPersistedState_def legacy_file_def sanitize_def restoreState_def
        List.map_filter_simps open_and_ready_def captureState_def)

text \<open>
  Claim C8, amended. Whatever the registry was, after a successful register, shuffle or
  reopen the flags \<open>registrationOpen\<close> and \<open>assignmentsReady\<close> are not both true; a
  request that fails, or a handler that throws, leaves both flags as they were; and
  \<^verbatim>\<open>restoreState\<close> sets the two flags to the ones of the persisted state, so after a
  restore they are both true exactly when they are both true there.
\<close>

theorem flags_after_mutation:
  "(register_POST st disk req e = Some (Inr resp, st', disk') \<longrightarrow>
      (if status resp = 201 then \<not> (registrationOpen st' \<and> assignmentsReady st')
       else registrationOpen st' = registrationOpen st
          \<and> assignmentsReady st' = assignmentsReady st))
   \<and> (register_POST st disk req e = Some (Inl err, st', disk') \<longrightarrow>
      registrationOpen st' = registrationOpen st \<and> assignmentsReady st' = assignmentsReady st)
   \<and> (shuffle_POST config st disk req e = (resp, st', disk') \<longrightarrow>
      (if status resp = 200 then \<not> (registrationOpen st' \<and> assignmentsReady st')
       else registrationOpen st' = registrationOpen st
          \<and> assignmentsReady st' = assignmentsReady st))
   \<and> (reopen_POST config st disk req e = (resp, st', disk') \<longrightarrow>
      (if status resp = 200 then \<not> (registrationOpen st' \<and> assignmentsReady st')
       else registrationOpen st' = registrationOpen st
          \<and> assignmentsReady st' = assignmentsReady st))
   \<and> registrationOpen (restoreState s) = ps_registrationOpen s
   \<and> assignmentsReady (restoreState s) = ps_assignmentsReady s"
proof -
  have reg: "if status resp = 201 then \<not> (registrationOpen st' \<and> assignmentsReady st')
       else registrationOpen st' = registrationOpen st
          \<and> assignmentsReady st' = assignmentsReady st"
    if run: "register_POST st disk req e = Some (Inr resp, st', disk')"
  proof (cases "status resp = 201")
    case True
    from run True obtain tok b nm where "st' = registered st tok nm (now e) (ip req)"
      by (rule register_success_cases)
    then show ?thesis using True by (simp add: registered_def)
  next
    case False
    then show ?thesis using register_result_cases [OF run] rollback_flags by auto
  qed
  have thr: "registrationOpen st' = registrationOpen st
      \<and> assignmentsReady st' = assignmentsReady st"
    if run: "register_POST st disk req e = Some (Inl err, st', disk')"
    using register_result_cases [OF run] rollback_flags by auto
  have shf: "if status resp = 200 then \<not> (registrationOpen st' \<and> assignmentsReady st')
       else registrationOpen st' = registrationOpen st
          \<and> assignmentsReady st' = assignmentsReady st"
    if run: "shuffle_POST config st disk req e = (resp, st', disk')"
  proof (cases "status resp = 200")
    case True
    then show ?thesis
      using shuffle_success_cases [OF run True] by (simp add: shuffled_def Let_def)
  next
    case False
    then show ?thesis using shuffle_result_cases [OF run] rollback_flags by auto
  qed
  have reo: "if status resp = 200 then \<not> (registrationOpen st' \<and> assignmentsReady st')
       else registrationOpen st' = registrationOpen st
          \<and> assignmentsReady st' = assignmentsReady st"
    if run: "reopen_POST config st disk req e = (resp, st', disk')"
  proof (cases "status resp = 200")
    case True
    then show ?thesis
      using reopen_success_cases [OF run True] by (simp add: reopened_def)
  next
    case False
    then show ?thesis using reopen_result_cases [OF run] rollback_flags by auto
  qed
  show ?thesis
    using reg thr shf reo restoreState_flags(1,2) by blast
qed

text \<open>One successful run of each route, and the restore of a snapshot taken after a
  shuffle.\<close>

theorem flags_after_mutation_witness:
  "(\<exists>resp disk'.
       register_POST ready_and_open empty_disk example_request example_env =
         Some (Inr resp, three_registered, disk') \<and> status resp = 201)
   \<and> \<not> (registrationOpen three_registered \<and> assignmentsReady three_registered)
   \<and> (\<exists>resp disk'.
       shuffle_POST example_config three_registered empty_disk admin_request example_env =
         (resp, three_shuffled, disk') \<and> status resp = 200)
   \<and> \<not> (registrationOpen three_shuffled \<and> assignmentsReady three_shuffled)
   \<and> (\<exists>resp disk'.
       reopen_POST example_config ready_and_open empty_disk admin_request example_env =
         (resp, two_registered, disk') \<and> status resp = 200)
   \<and> \<not> (registrationOpen two_registered \<and> assignmentsReady two_registered)
   \<and> registrationOpen (restoreState (captureState three_shuffled)) = False
   \<and> assignmentsReady (restoreState (captureState three_shuffled)) = True"
proof -
  have l: "2 \<le> length (participants three_registered)"
    by (simp add: three_registered_def)
  obtain r2 d2 where
    run2: "shuffle_POST example_config three_registered empty_disk admin_request example_env =
           (r2, three_shuffled, d2)"
    and s2: "status r2 = 200"
    using shuffle_POST_passes [OF example_facts(1) l, of empty_disk example_env]
    by (simp add: example_facts(5) example_shuffle)
  obtain r3 d3 where
    run3: "reopen_POST example_config ready_and_open empty_disk admin_request example_env =
           (r3, two_registered, d3)"
    and s3: "status r3 = 200"
    using reopen_POST_passes [OF example_facts(1), of ready_and_open empty_disk example_env]
    by (simp add: example_facts(5) reopened_ready_and_open)
  have "\<not> (registrationOpen three_registered \<and> assignmentsReady three_registered)"
    using flags_after_mutation [where st = ready_and_open and disk = empty_disk
        and req = example_request and e = example_env and st' = three_registered]
      example_register_stale
    by simp
  moreover have "\<not> (registrationOpen three_shuffled \<and> assignmentsReady three_shuffled)"
    using flags_after_mutation [where st = three_registered and disk = empty_disk
        and config = example_config and req = admin_request and e = example_env
        and st' = three_shuffled and resp = r2 and disk' = d2]
      run2 s2
    by simp
  moreover have "\<not> (registrationOpen two_registered \<and> assignmentsReady two_registered)"
    using flags_after_mutation [where st = ready_and_open and disk = empty_disk
        and config = example_config and req = admin_request and e = example_env
        and st' = two_registered and resp = r3 and disk' = d3]
      run3 s3
    by simp
  moreover have "registrationOpen (restoreState (captureState three_shuffled)) = False
      \<and> assignmentsReady (restoreState (captureState three_shuffled)) = True"
    using flags_after_mutation [where s = "captureState three_shuffled"]
    by (simp add: captureState_def three_shuffled_def)
  moreover have "\<exists>resp disk'.
       register_POST ready_and_open empty_disk example_request example_env =
         Some (Inr resp, three_registered, disk') \<and> status resp = 201"
    using example_register_stale by simp
  ultimately show ?thesis
    using run2 s2 run3 s3 by blast
qed

text \<open>
  Claim C9. From any registry, a reopen that succeeds (status 200) leaves registration
  open, assignments not ready, no shuffle date and no assignment on any participant; the
  participants are the same entries in the same order, changed in nothing but the
  assignment. A second successful reopen, with any request and environment, returns the
  registry the first one left.
\<close>

theorem reopen_resets:
  assumes "reopen_POST config st disk req e = (resp, st', disk')" and "status resp = 200"
  shows "registrationOpen st' \<and> \<not> assignmentsReady st' \<and> lastShuffledAt st' = None
     \<and> list_all (\<lambda>(k, p). assignmentToken p = None) (participants st')
     \<and> participants st' = map (\<lambda>(k, p). (k, p\<lparr>assignmentToken := None\<rparr>)) (participants st)
     \<and> (\<forall>config2 disk2 req2 e2 resp2 st2 disk2'.
           reopen_POST config2 st' disk2 req2 e2 = (resp2, st2, disk2') \<and> status resp2 = 200
           \<longrightarrow> st2 = st')"
proof -
  have s1: "st' = reopened st"
    using reopen_success_cases [OF assms] by simp
  have idem: "st2 = st'"
    if "reopen_POST config2 st' disk2 req2 e2 = (resp2, st2, disk2')" "status resp2 = 200"
    for config2 disk2 req2 e2 resp2 st2 disk2'
  proof -
    have "st2 = reopened st'"
      using reopen_success_cases [OF that] by simp
    then show ?thesis
      using s1 by (simp add: reopened_def clear_assignments_idem)
  qed
  have "list_all (\<lambda>(k, p). assignmentToken p = None) (participants st')"
    using s1 clear_assignments_all_none [of "participants st"] by (simp add: reopened_def)
  moreover have "participants st' =
      map (\<lambda>(k, p). (k, p\<lparr>assignmentToken := None\<rparr>)) (participants st)"
    using s1 by (simp add: reopened_def clear_assignments_def)
  moreover have "registrationOpen st' \<and> \<not> assignmentsReady st' \<and> lastShuffledAt st' = None"
    using s1 by (simp add: reopened_def)
  ultimately show ?thesis
    using idem by blast
qed


text \<open>Reopening a registry of two participants with assignments, twice.\<close>

theorem reopen_resets_witness:
  "\<exists>resp disk' resp2 disk2.
     reopen_POST example_config ready_and_open empty_disk admin_request example_env =
       (resp, two_registered, disk')
     \<and> status resp = 200
     \<and> registrationOpen two_registered \<and> \<not> assignmentsReady two_registered
     \<and> lastShuffledAt two_registered = None
     \<and> map (assignmentToken \<circ> snd) (participants two_registered) = [None, None]
     \<and> map fst (participants two_registered) = map fst (participants ready_and_open)
     \<and> reopen_POST example_config two_registered disk' admin_request example_env =
           (resp2, two_registered, disk2)
     \<and> status resp2 = 200"
proof -
  let ?first = "reopen_POST example_config ready_and_open empty_disk admin_request example_env"
  obtain resp disk' where r1: "?first = (resp, two_registered, disk')" and s1: "status resp = 200"
    using reopen_POST_passes [OF example_facts(1), of ready_and_open empty_disk example_env]
    by (simp add: example_facts(5) reopened_ready_and_open)
  let ?second = "reopen_POST example_config two_registered disk' admin_request example_env"
  obtain resp2 disk2 where r2: "?second = (resp2, two_registered, disk2)"
    and s2: "status resp2 = 200"
    using reopen_POST_passes [OF example_facts(1), of two_registered disk' example_env]
    by (simp add: example_facts(5) reopened_two_registered)
  from reopen_resets [OF r1 s1]
  have "registrationOpen two_registered \<and> \<not> assignmentsReady two_registered
     \<and> lastShuffledAt two_registered = None"
    by simp
  moreover have "map (assignmentToken \<circ> snd) (participants two_registered) = [None, None]"
    "map fst (participants two_registered) = map fst (participants ready_and_open)"
    by (simp_all add: two_registered_def ready_and_open_def alice_def bob_def)
  ultimately show ?thesis
    using r1 s1 r2 s2
    by - (rule exI [of _ resp], rule exI [of _ disk'], rule exI [of _ resp2],
          rule exI [of _ disk2], simp)
qed

text \<open>
  Claim C10. Every successful registration (status 201), whatever \<open>assignmentsReady\<close>
  was, leaves no shuffle date, assignments not ready, \<open>registrationOpen\<close> as it was,
  and as participants the former entries in their order, each changed in nothing but its
  assignment (now absent), followed by one new entry under a token that was not a key.
\<close>

theorem register_resets_and_appends:
  assumes "register_POST st disk req e = Some (Inr resp, st', disk')" and "status resp = 201"
  shows "lastShuffledAt st' = None \<and> \<not> assignmentsReady st'
     \<and> registrationOpen st' = registrationOpen st
     \<and> (\<exists>tok nm. \<not> map_has (participants st) tok
           \<and> participants st' =
               map (\<lambda>(k, p). (k, p\<lparr>assignmentToken := None\<rparr>)) (participants st) @
                 [(tok, \<lparr>token = tok, name = nm, assignmentToken = None,
                         registeredAt = now e, ipAddress = ip req\<rparr>)])"
proof -
  from assms obtain tok b nm where
    t: "createUniqueToken (participants st) (uuids e) = Some tok"
    and st': "st' = registered st tok nm (now e) (ip req)"
    by (rule register_success_cases)
  have "\<not> map_has (participants st) tok"
    using createUniqueToken_fresh [OF t] by simp
  moreover have "participants st' =
      map (\<lambda>(k, p). (k, p\<lparr>assignmentToken := None\<rparr>)) (participants st) @
        [(tok, \<lparr>token = tok, name = nm, assignmentToken = None,
                registeredAt = now e, ipAddress = ip req\<rparr>)]"
    using registered_participants [OF t] st' by (simp add: clear_assignments_def)
  moreover have "lastShuffledAt st' = None \<and> \<not> assignmentsReady st'
     \<and> registrationOpen st' = registrationOpen st"
    using st' by (simp add: registered_def)
  ultimately show ?thesis by blast
qed

text \<open>Registering "Carol" after Alice and Bob, with no assignments in place.\<close>

theorem register_resets_and_appends_witness:
  "\<not> assignmentsReady two_registered
   \<and> (\<exists>resp st' disk'.
         register_POST two_registered empty_disk example_request example_env =
           Some (Inr resp, st', disk')
         \<and> status resp = 201 \<and> lastShuffledAt st' = None
         \<and> participants st' = [(''a11ce'', alice), (''b0b'', bob), (''a1b2'', carol)])"
proof -
  have "lastShuffledAt three_registered = None
     \<and> participants three_registered = [(''a11ce'', alice), (''b0b'', bob), (''a1b2'', carol)]"
    using register_resets_and_appends [OF example_register_two]
    by (simp add: three_registered_def)
  then show ?thesis
    using example_register_two by (simp add: two_registered_def)
qed

end
